theory Spec2Isabelle
  imports Main "HOL-Library.Word"
begin

section \<open>The RabbitMQ event handler of Janus (the file janus-rabbitmqevh)\<close>

text \<open>
  The plugin has a handler thread (\<open>jns_rmqevh_hdlr\<close>) that pops events from an
  asynchronous queue, groups them, serialises the group and publishes it, a heartbeat
  thread (\<open>jns_rmqevh_hrtbt\<close>) that polls the connection and reconnects, and the
  callbacks the Janus core calls from its own threads (\<open>incoming_event\<close>,
  \<open>handle_request\<close>, \<open>destroy\<close>). The threads share the flags \<open>initialized\<close>,
  \<open>stopping\<close> and \<open>group_events\<close> and the queue \<open>events\<close>.

  Each thread is a machine with a program counter; one step is the code between two
  accesses to shared data (an atomic flag read, a queue operation), so that a run is an
  interleaving of the threads' steps. What the libraries answer (jansson's
  \<open>json_dumps\<close>, the rabbitmq-c calls) is an input of the step that makes the call.
\<close>

subsection \<open>JSON values and references\<close>

text \<open>
  A \<open>json_t *\<close> held by the queue or by the handler's variable \<open>event\<close> is \<open>NULL\<close>,
  the address of the file's static \<open>exit_event\<close>, or the address of an event of the
  core.
\<close>

datatype json_ptr = NULL | exit_event | Event nat

text \<open>
  What the handler's variable \<open>output\<close> points to, when it is not \<open>NULL\<close>: the event
  itself (line 585) or the array made by \<open>json_array()\<close> at line 590, with the events
  appended to it by \<open>json_array_append_new\<close>.
\<close>

datatype json_out = Single json_ptr | Array "json_ptr list"

fun batch :: "json_out option \<Rightarrow> json_ptr list" where
  "batch None = []"
| "batch (Some (Single e)) = [e]"
| "batch (Some (Array xs)) = xs"

text \<open>Reference counts, one for each address. jansson ignores \<open>NULL\<close>.\<close>

type_synonym refcounts = "json_ptr \<Rightarrow> int"

definition json_incref :: "json_ptr \<Rightarrow> refcounts \<Rightarrow> refcounts" where
  "json_incref p rc = (if p = NULL then rc else rc(p := rc p + 1))"

definition json_decref :: "json_ptr \<Rightarrow> refcounts \<Rightarrow> refcounts" where
  "json_decref p rc = (if p = NULL then rc else rc(p := rc p - 1))"

text \<open>
  \<open>json_decref(output)\<close>: the reference \<open>output\<close> holds is the event's own (line 585)
  or the only one of the array, whose deletion releases every element
  (\<open>json_array_append_new\<close> gave the array the caller's reference).
\<close>

fun json_decref_out :: "json_out option \<Rightarrow> refcounts \<Rightarrow> refcounts" where
  "json_decref_out None rc = rc"
| "json_decref_out (Some (Single e)) rc = json_decref e rc"
| "json_decref_out (Some (Array xs)) rc = fold json_decref xs rc"

text \<open>Lines 96-100, the queue's destroy notifier.\<close>

definition janus_rabbitmqevh_event_free :: "json_ptr \<Rightarrow> refcounts \<Rightarrow> refcounts" where
  "janus_rabbitmqevh_event_free event rc =
     (if event = NULL \<or> event = exit_event then rc else json_decref event rc)"

subsection \<open>The queue\<close>

text \<open>
  GLib's asynchronous queue, first in first out. \<open>g_async_queue_push\<close> refuses
  \<open>NULL\<close>; \<open>g_async_queue_try_pop\<close> answers \<open>NULL\<close> on an empty queue;
  \<open>g_async_queue_pop\<close> blocks on an empty queue (\<open>None\<close>: the caller does not
  advance).
\<close>

definition g_async_queue_push :: "json_ptr list \<Rightarrow> json_ptr \<Rightarrow> json_ptr list" where
  "g_async_queue_push q p = (if p = NULL then q else q @ [p])"

fun g_async_queue_try_pop :: "json_ptr list \<Rightarrow> json_ptr \<times> json_ptr list" where
  "g_async_queue_try_pop [] = (NULL, [])"
| "g_async_queue_try_pop (p # q) = (p, q)"

fun g_async_queue_pop :: "json_ptr list \<Rightarrow> (json_ptr \<times> json_ptr list) option" where
  "g_async_queue_pop [] = None"
| "g_async_queue_pop (p # q) = Some (p, q)"

text \<open>\<open>g_async_queue_unref\<close> of the last reference: the notifier frees what is left.\<close>

definition g_async_queue_unref :: "json_ptr list \<Rightarrow> refcounts \<Rightarrow> refcounts" where
  "g_async_queue_unref q rc = fold janus_rabbitmqevh_event_free q rc"

subsection \<open>Statuses of rabbitmq-c\<close>

text \<open>The enumeration \<open>amqp_status_enum\<close> of the library's header.\<close>

datatype amqp_status =
    AMQP_STATUS_OK
  | AMQP_STATUS_NO_MEMORY
  | AMQP_STATUS_BAD_AMQP_DATA
  | AMQP_STATUS_UNKNOWN_CLASS
  | AMQP_STATUS_UNKNOWN_METHOD
  | AMQP_STATUS_HOSTNAME_RESOLUTION_FAILED
  | AMQP_STATUS_INCOMPATIBLE_AMQP_VERSION
  | AMQP_STATUS_CONNECTION_CLOSED
  | AMQP_STATUS_BAD_URL
  | AMQP_STATUS_SOCKET_ERROR
  | AMQP_STATUS_INVALID_PARAMETER
  | AMQP_STATUS_TABLE_TOO_BIG
  | AMQP_STATUS_WRONG_METHOD
  | AMQP_STATUS_TIMEOUT
  | AMQP_STATUS_TIMER_FAILURE
  | AMQP_STATUS_HEARTBEAT_TIMEOUT
  | AMQP_STATUS_UNEXPECTED_STATE
  | AMQP_STATUS_SOCKET_CLOSED
  | AMQP_STATUS_SOCKET_INUSE
  | AMQP_STATUS_BROKER_UNSUPPORTED_SASL_METHOD
  | AMQP_STATUS_UNSUPPORTED
  | AMQP_STATUS_TCP_ERROR
  | AMQP_STATUS_TCP_SOCKETLIB_INIT_ERROR
  | AMQP_STATUS_SSL_ERROR
  | AMQP_STATUS_SSL_HOSTNAME_VERIFY_FAILED
  | AMQP_STATUS_SSL_PEER_VERIFY_FAILED
  | AMQP_STATUS_SSL_CONNECTION_FAILED

datatype amqp_response_type =
    AMQP_RESPONSE_NONE
  | AMQP_RESPONSE_NORMAL
  | AMQP_RESPONSE_LIBRARY_EXCEPTION
  | AMQP_RESPONSE_SERVER_EXCEPTION

subsection \<open>The state the handler thread and the callbacks share\<close>

text \<open>Where the handler thread stands, by the line of its next access to shared data.\<close>

datatype hdlr_pc =
    Enter       \<comment> \<open>line 565, the locals' initialisation\<close>
  | While_cond  \<comment> \<open>line 567\<close>
  | Pop         \<comment> \<open>line 569, the blocking pop\<close>
  | Handle      \<comment> \<open>lines 577-595, the inner loop's body up to the pop\<close>
  | Try_pop     \<comment> \<open>lines 596-598\<close>
  | Send        \<comment> \<open>lines 601-628\<close>
  | Leave       \<comment> \<open>line 630, the thread returns\<close>

text \<open>Where \<open>janus_rabbitmqevh_destroy\<close> stands.\<close>

datatype destroy_pc =
    Not_called   \<comment> \<open>line 432\<close>
  | Stop_set     \<comment> \<open>line 436\<close>
  | Exit_pushed  \<comment> \<open>line 438, joining the handler thread\<close>
  | Destroyed

text \<open>The messages of level warning and error the handler thread logs.\<close>

datatype log_msg = Failed_to_stringify | Error_publishing amqp_status

text \<open>The two atomic flags of line 85, which every thread reads.\<close>

record flags =
  initialized :: bool
  stopping :: bool

record state = flags +
  group_events :: bool
  events :: "json_ptr list"
  json_format :: nat
  events_mask :: nat
  refcount :: refcounts
  pc :: hdlr_pc
  event :: json_ptr
  output' :: "json_out option"              \<comment> \<open>the local \<open>output\<close>\<close>
  count :: int
  max_n :: int                              \<comment> \<open>the local \<open>max\<close>\<close>
  dpc :: destroy_pc
  dumped :: "(json_out option \<times> nat) list"  \<comment> \<open>the calls of \<open>json_dumps\<close>, in order\<close>
  published :: "(json_out \<times> string \<times> amqp_status) list"
    \<comment> \<open>the calls of \<open>amqp_basic_publish\<close>, in order: the value whose text the body
        is, the body, and the status returned\<close>
  logged :: "log_msg list"
  checked :: "json_ptr list"
    \<comment> \<open>the events of the calls of \<open>incoming_event\<close> that have passed line 496 and have
        not pushed yet\<close>

subsection \<open>Requests of the Admin API\<close>

datatype json =
    JSON_OBJECT "(string \<times> json) list"
  | JSON_ARRAY "json list"
  | JSON_STRING string
  | JSON_INTEGER int
  | JSON_REAL
  | JSON_TRUE
  | JSON_FALSE
  | JSON_NULL

fun json_object_get :: "json \<Rightarrow> string \<Rightarrow> json option" where
  "json_object_get (JSON_OBJECT kvs) k = map_of kvs k"
| "json_object_get _ k = None"

fun json_string_value :: "json option \<Rightarrow> string option" where
  "json_string_value (Some (JSON_STRING t)) = Some t"
| "json_string_value _ = None"

fun json_is_true :: "json option \<Rightarrow> bool" where
  "json_is_true (Some JSON_TRUE) = True"
| "json_is_true _ = False"

text \<open>Lines 128-134: the name, the type and the flags of a parameter.\<close>

datatype param_type = P_JSON_STRING | P_JANUS_JSON_BOOL

datatype param_flag = JANUS_JSON_PARAM_REQUIRED

type_synonym janus_json_parameter = "string \<times> param_type \<times> param_flag list"

definition request_parameters :: "janus_json_parameter list" where
  "request_parameters = [(''request'', P_JSON_STRING, [JANUS_JSON_PARAM_REQUIRED])]"

definition tweak_parameters :: "janus_json_parameter list" where
  "tweak_parameters = [(''events'', P_JSON_STRING, []), (''grouping'', P_JANUS_JSON_BOOL, [])]"

definition JANUS_RABBITMQEVH_ERROR_INVALID_REQUEST :: int where
  "JANUS_RABBITMQEVH_ERROR_INVALID_REQUEST = 411"

definition JANUS_RABBITMQEVH_ERROR_MISSING_ELEMENT :: int where
  "JANUS_RABBITMQEVH_ERROR_MISSING_ELEMENT = 412"

definition JANUS_RABBITMQEVH_ERROR_INVALID_ELEMENT :: int where
  "JANUS_RABBITMQEVH_ERROR_INVALID_ELEMENT = 413"

text \<open>\<open>strcasecmp(a, b) == 0\<close>, in the C locale.\<close>

definition tolower :: "char \<Rightarrow> char" where
  "tolower c =
     (let n = (of_char c :: nat) in if 65 \<le> n \<and> n \<le> 90 then char_of (n + 32) else c)"

definition strcasecmp_eq :: "string \<Rightarrow> string \<Rightarrow> bool" where
  "strcasecmp_eq a b = (map tolower a = map tolower b)"

text \<open>
  The collaborators whose code is not in this file: jansson's \<open>json_dumps\<close> (the text,
  or \<open>None\<close> for \<open>NULL\<close>), the core's \<open>janus_events_edit_events_mask\<close>, and the
  core's macro \<open>JANUS_VALIDATE_JSON_OBJECT\<close>, which gives the error code (0 when the
  object is valid, else the code for a missing or for an invalid element, in this order of
  arguments) and the error's cause.
\<close>

record ext =
  json_dumps :: "json_out \<Rightarrow> nat \<Rightarrow> string option"
  janus_events_edit_events_mask :: "string option \<Rightarrow> nat \<Rightarrow> nat"
  JANUS_VALIDATE_JSON_OBJECT ::
    "json \<Rightarrow> janus_json_parameter list \<Rightarrow> int \<Rightarrow> int \<Rightarrow> int \<times> string"

subsection \<open>The handler thread, lines 561-632\<close>

text \<open>
  \<open>json_array_append_new(output, event)\<close> at line 591, \<open>output\<close> having been made an
  array at line 590 when it was \<open>NULL\<close>. On a value that is no array jansson appends
  nothing and releases the event.
\<close>

fun append_new :: "json_out option \<Rightarrow> json_ptr \<Rightarrow> refcounts \<Rightarrow> json_out option \<times> refcounts" where
  "append_new None e rc = (Some (Array [e]), rc)"
| "append_new (Some (Array xs)) e rc = (Some (Array (xs @ [e])), rc)"
| "append_new (Some (Single x)) e rc = (Some (Single x), json_decref e rc)"

text \<open>
  Lines 577-595. The delay computed from the event's timestamp is only logged at debug
  level and changes nothing.
\<close>

definition hdlr_handle :: "state \<Rightarrow> state" where
  "hdlr_handle s =
     (if \<not> group_events s then s\<lparr>output' := Some (Single (event s)), pc := Send\<rparr>
      else
        let (out, rc) = append_new (output' s) (event s) (refcount s);
            c = count s + 1
        in s\<lparr>output' := out, refcount := rc, count := c,
              pc := (if c = max_n s then Send else Try_pop)\<rparr>)"

text \<open>Lines 596-598.\<close>

definition hdlr_try_pop :: "state \<Rightarrow> state" where
  "hdlr_try_pop s =
     (let (e, q) = g_async_queue_try_pop (events s)
      in s\<lparr>event := e, events := q,
            pc := (if e = NULL \<or> e = exit_event then Send else Handle)\<rparr>)"

text \<open>Lines 569-573.\<close>

definition hdlr_pop :: "state \<Rightarrow> state" where
  "hdlr_pop s =
     (case g_async_queue_pop (events s) of
        None \<Rightarrow> s
      | Some (e, q) \<Rightarrow>
          if e = exit_event then s\<lparr>event := e, events := q, pc := Leave\<rparr>
          else s\<lparr>event := e, events := q, count := 0, output' := None, pc := Handle\<rparr>)"

text \<open>
  Lines 601-628; \<open>status\<close> is what \<open>amqp_basic_publish\<close> returns if it is called.
  \<open>json_dumps(NULL, ...)\<close> is \<open>NULL\<close>.
\<close>

definition hdlr_send :: "ext \<Rightarrow> amqp_status \<Rightarrow> state \<Rightarrow> state" where
  "hdlr_send X status s =
     (if \<not> stopping s then
        (case (case output' s of None \<Rightarrow> None
               | Some v \<Rightarrow> map_option (Pair v) (json_dumps X v (json_format s))) of
           None \<Rightarrow>
             s\<lparr>dumped := dumped s @ [(output' s, json_format s)],
               logged := logged s @ [Failed_to_stringify],
               refcount := json_decref_out (output' s) (refcount s),
               output' := None, pc := While_cond\<rparr>
         | Some (v, event_text) \<Rightarrow>
             s\<lparr>dumped := dumped s @ [(output' s, json_format s)],
               published := published s @ [(v, event_text, status)],
               logged := (if status \<noteq> AMQP_STATUS_OK
                          then logged s @ [Error_publishing status] else logged s),
               refcount := json_decref_out (output' s) (refcount s),
               output' := None, pc := While_cond\<rparr>)
      else
        s\<lparr>refcount := json_decref_out (output' s) (refcount s),
          output' := None, pc := While_cond\<rparr>)"

definition hdlr_step :: "ext \<Rightarrow> amqp_status \<Rightarrow> state \<Rightarrow> state" where
  "hdlr_step X status s =
     (case pc s of
        Enter \<Rightarrow>
          s\<lparr>event := NULL, output' := None, count := 0,
            max_n := (if group_events s then 100 else 1), pc := While_cond\<rparr>
      | While_cond \<Rightarrow>
          if initialized s \<and> \<not> stopping s then s\<lparr>pc := Pop\<rparr> else s\<lparr>pc := Leave\<rparr>
      | Pop \<Rightarrow> hdlr_pop s
      | Handle \<Rightarrow> hdlr_handle s
      | Try_pop \<Rightarrow> hdlr_try_pop s
      | Send \<Rightarrow> hdlr_send X status s
      | Leave \<Rightarrow> s)"

subsection \<open>The callbacks\<close>

text \<open>
  Lines 495-510. The flags are read first (line 496), the event is referenced and pushed
  afterwards (lines 508-509), and another thread may run in between. Once \<open>destroy\<close> has
  released the queue and put \<open>NULL\<close> in \<open>events\<close> (lines 446-447), GLib refuses the
  push.
\<close>

definition incoming_event_enter :: "json_ptr \<Rightarrow> state \<Rightarrow> state" where
  "incoming_event_enter e s =
     (if stopping s \<or> \<not> initialized s then s else s\<lparr>checked := e # checked s\<rparr>)"

definition incoming_event_push :: "json_ptr \<Rightarrow> state \<Rightarrow> state" where
  "incoming_event_push e s =
     (if e \<in> set (checked s)
      then s\<lparr>refcount := json_incref e (refcount s),
             events := (if dpc s = Destroyed then events s
                        else g_async_queue_push (events s) e),
             checked := remove1 e (checked s)\<rparr>
      else s)"

text \<open>The whole call, when no other thread runs during it.\<close>

definition janus_rabbitmqevh_incoming_event :: "json_ptr \<Rightarrow> state \<Rightarrow> state" where
  "janus_rabbitmqevh_incoming_event e s =
     (if stopping s \<or> \<not> initialized s then s
      else s\<lparr>refcount := json_incref e (refcount s),
             events := g_async_queue_push (events s) e\<rparr>)"

text \<open>
  Lines 512-558: the response (\<open>None\<close> for \<open>NULL\<close>) and the state. The result
  \<open>None\<close> stands for \<open>strcasecmp\<close> on the \<open>NULL\<close> that \<open>json_string_value\<close>
  gives when \<open>request\<close> is no string, which the validation is there to exclude. The
  call is one step of a run: it writes \<open>group_events\<close> and the mask only.
\<close>

definition plugin_response :: "int \<Rightarrow> string \<Rightarrow> json" where
  "plugin_response error_code error_cause =
     (if error_code = 0 then JSON_OBJECT [(''result'', JSON_INTEGER 200)]
      else JSON_OBJECT [(''error_code'', JSON_INTEGER error_code),
                        (''error'', JSON_STRING error_cause)])"

definition tweak :: "ext \<Rightarrow> json \<Rightarrow> state \<Rightarrow> state" where
  "tweak X request s =
     (let s1 = (if json_object_get request ''events'' \<noteq> None
                then s\<lparr>events_mask :=
                       janus_events_edit_events_mask X
                         (json_string_value (json_object_get request ''events''))
                         (events_mask s)\<rparr>
                else s)
      in if json_object_get request ''grouping'' \<noteq> None
         then s1\<lparr>group_events := json_is_true (json_object_get request ''grouping'')\<rparr>
         else s1)"

definition janus_rabbitmqevh_handle_request ::
  "ext \<Rightarrow> json \<Rightarrow> state \<Rightarrow> (json option \<times> state) option" where
  "janus_rabbitmqevh_handle_request X request s =
     (if stopping s \<or> \<not> initialized s then Some (None, s)
      else
        case JANUS_VALIDATE_JSON_OBJECT X request request_parameters
               JANUS_RABBITMQEVH_ERROR_MISSING_ELEMENT JANUS_RABBITMQEVH_ERROR_INVALID_ELEMENT of
          (error_code, error_cause) \<Rightarrow>
            if error_code \<noteq> 0 then Some (Some (plugin_response error_code error_cause), s)
            else
              case json_string_value (json_object_get request ''request'') of
                None \<Rightarrow> None
              | Some request_text \<Rightarrow>
                  if strcasecmp_eq request_text ''tweak'' then
                    case JANUS_VALIDATE_JSON_OBJECT X request tweak_parameters
                           JANUS_RABBITMQEVH_ERROR_MISSING_ELEMENT
                           JANUS_RABBITMQEVH_ERROR_INVALID_ELEMENT of
                      (error_code, error_cause) \<Rightarrow>
                        if error_code \<noteq> 0
                        then Some (Some (plugin_response error_code error_cause), s)
                        else Some (Some (plugin_response 0 []), tweak X request s)
                  else
                    Some (Some (plugin_response JANUS_RABBITMQEVH_ERROR_INVALID_REQUEST
                                  (''Unknown request '' @ [CHR 0x27] @ request_text @ [CHR 0x27])),
                          s))"

text \<open>
  Lines 431-464, as far as they touch the state of the handler thread: the stop flag, the
  push of \<open>exit_event\<close>, the join of the handler thread (which waits for it to return),
  then the release of the queue and the reset of the flags.
\<close>

definition destroy_step :: "state \<Rightarrow> state" where
  "destroy_step s =
     (case dpc s of
        Not_called \<Rightarrow> if \<not> initialized s then s else s\<lparr>stopping := True, dpc := Stop_set\<rparr>
      | Stop_set \<Rightarrow>
          s\<lparr>events := g_async_queue_push (events s) exit_event, dpc := Exit_pushed\<rparr>
      | Exit_pushed \<Rightarrow>
          if pc s \<noteq> Leave then s
          else s\<lparr>refcount := g_async_queue_unref (events s) (refcount s), events := [],
                 initialized := False, stopping := False, dpc := Destroyed\<rparr>
      | Destroyed \<Rightarrow> s)"

subsection \<open>Runs\<close>

text \<open>
  A run is a list of steps, each of one thread: the handler thread (with the status the
  broker would answer to a publish), a caller of \<open>incoming_event\<close> at one of its two
  halves, a request of the Admin API, or \<open>destroy\<close>.
\<close>

datatype action =
    Hdlr amqp_status
  | Incoming json_ptr
  | Incoming_push json_ptr
  | Request json
  | Destroy

fun step :: "ext \<Rightarrow> action \<Rightarrow> state \<Rightarrow> state" where
  "step X (Hdlr status) s = hdlr_step X status s"
| "step X (Incoming e) s = incoming_event_enter e s"
| "step X (Incoming_push e) s = incoming_event_push e s"
| "step X (Request r) s =
     (case janus_rabbitmqevh_handle_request X r s of None \<Rightarrow> s | Some (response, s') \<Rightarrow> s')"
| "step X Destroy s = destroy_step s"

definition run :: "ext \<Rightarrow> action list \<Rightarrow> state \<Rightarrow> state" where
  "run X as s = fold (step X) as s"

text \<open>
  The state \<open>janus_rabbitmqevh_init\<close> leaves when it succeeds (lines 301-306): the flag
  \<open>initialized\<close> set, an empty queue, the handler thread created.
\<close>

definition init_state :: "bool \<Rightarrow> nat \<Rightarrow> nat \<Rightarrow> refcounts \<Rightarrow> state" where
  "init_state grouping fmt evmask rc =
     \<lparr>initialized = True, stopping = False, group_events = grouping, events = [],
      json_format = fmt, events_mask = evmask, refcount = rc, pc = Enter, event = NULL,
      output' = None, count = 0, max_n = 0, dpc = Not_called, dumped = [], published = [],
      logged = [], checked = []\<rparr>"

subsection \<open>The connection, lines 346-429\<close>

text \<open>The configuration \<open>janus_rabbitmqevh_init\<close> reads (lines 114-125).\<close>

record config =
  rmqhost :: string
  rmqport :: "16 word"
  vhost :: string
  username :: string
  password :: string
  ssl_enable :: bool
  ssl_verify_peer :: bool
  ssl_verify_hostname :: bool
  ssl_cacert_file :: "string option"
  ssl_cert_file :: "string option"
  ssl_key_file :: "string option"
  route_key :: string
  exchange :: "string option"
  exchange_type :: string
  heartbeat :: "16 word"
  declare_outgoing_queue :: bool

text \<open>
  What the library and the broker answer during one call of the function: whether a
  socket is made, the statuses of the calls that return one, and the reply types
  \<open>amqp_login\<close> and \<open>amqp_get_rpc_reply\<close> give.
\<close>

record answers =
  ssl_socket_new :: bool
  tcp_socket_new :: bool
  set_cacert :: amqp_status
  set_key :: amqp_status
  socket_open :: amqp_status
  login :: amqp_response_type
  channel_open :: amqp_response_type
  exchange_declare :: amqp_response_type
  queue_declare :: amqp_response_type

text \<open>The calls of the library the function makes, in order.\<close>

datatype amqp_call =
    Amqp_new_connection
  | Amqp_ssl_socket_new
  | Amqp_ssl_socket_set_verify_peer bool
  | Amqp_ssl_socket_set_verify_hostname bool
  | Amqp_ssl_socket_set_cacert string
  | Amqp_ssl_socket_set_key string string
  | Amqp_tcp_socket_new
  | Amqp_socket_open string "16 word"
  | Amqp_login string "16 word" string string
  | Amqp_channel_open
  | Amqp_exchange_declare string string
  | Amqp_queue_declare string

text \<open>
  Lines 352-374, the encrypted socket: the calls and whether the function goes on
  (\<open>False\<close>: it returns -1). The local \<open>status\<close> is \<open>AMQP_STATUS_OK\<close> from line 349
  and is assigned at line 362 only; line 369 calls \<open>amqp_ssl_socket_set_key\<close> without
  assigning its result, and line 370 tests \<open>status\<close>.
\<close>

definition connect_ssl_socket :: "config \<Rightarrow> answers \<Rightarrow> amqp_call list \<times> bool" where
  "connect_ssl_socket c a =
     (if \<not> ssl_socket_new a then ([Amqp_ssl_socket_new], False)
      else
        let t = [Amqp_ssl_socket_new,
                 Amqp_ssl_socket_set_verify_peer (ssl_verify_peer c),
                 Amqp_ssl_socket_set_verify_hostname (ssl_verify_hostname c)];
            status = AMQP_STATUS_OK;
            (t, status, go) =
              (case ssl_cacert_file c of
                 None \<Rightarrow> (t, status, True)
               | Some cacert \<Rightarrow>
                   (t @ [Amqp_ssl_socket_set_cacert cacert], set_cacert a,
                    set_cacert a = AMQP_STATUS_OK))
        in if \<not> go then (t, False)
           else
             (case (ssl_cert_file c, ssl_key_file c) of
                (Some cert, Some key) \<Rightarrow>
                  (t @ [Amqp_ssl_socket_set_key cert key], status = AMQP_STATUS_OK)
              | _ \<Rightarrow> (t, True)))"

text \<open>Lines 376-380, the plain socket.\<close>

definition connect_tcp_socket :: "answers \<Rightarrow> amqp_call list \<times> bool" where
  "connect_tcp_socket a = ([Amqp_tcp_socket_new], tcp_socket_new a)"

text \<open>The whole function: the calls it makes and the value it returns (0 or -1).\<close>

definition janus_rabbitmqevh_connect :: "config \<Rightarrow> answers \<Rightarrow> amqp_call list \<times> int" where
  "janus_rabbitmqevh_connect c a =
     (let (t, go) = (if ssl_enable c then connect_ssl_socket c a else connect_tcp_socket a);
          t = Amqp_new_connection # t
      in if \<not> go then (t, -1)
      else
        let t = t @ [Amqp_socket_open (rmqhost c) (rmqport c)]
        in if socket_open a \<noteq> AMQP_STATUS_OK then (t, -1)
        else
          let t = t @ [Amqp_login (vhost c) (heartbeat c) (username c) (password c)]
          in if login a \<noteq> AMQP_RESPONSE_NORMAL then (t, -1)
          else
            let t = t @ [Amqp_channel_open]
            in if channel_open a \<noteq> AMQP_RESPONSE_NORMAL then (t, -1)
            else
              let (t, go) =
                    (case exchange c of
                       None \<Rightarrow> (t, True)
                     | Some ex \<Rightarrow>
                         (t @ [Amqp_exchange_declare ex (exchange_type c)],
                          exchange_declare a = AMQP_RESPONSE_NORMAL))
              in if \<not> go then (t, -1)
              else if declare_outgoing_queue c then
                (t @ [Amqp_queue_declare (route_key c)],
                 if queue_declare a \<noteq> AMQP_RESPONSE_NORMAL then -1 else 0)
              else (t, 0))"

subsection \<open>The heartbeat thread, lines 636-680\<close>

text \<open>
  \<open>int waiting_usec = (heartbeat/2) * 1000000\<close>: the operands are promoted to \<open>int\<close>,
  32 bits wide. C leaves the overflow of the product undefined; it is taken here to wrap
  in two's complement, as the compilers in use do. \<open>g_usleep\<close> takes a \<open>gulong\<close>, 64
  bits wide on the platforms with a 32-bit \<open>int\<close> that Janus runs on, to which the
  \<open>int\<close> is converted.
\<close>

definition int32_wrap :: "int \<Rightarrow> int" where
  "int32_wrap x = (x + 2 ^ 31) mod 2 ^ 32 - 2 ^ 31"

definition gulong_of_int :: "int \<Rightarrow> nat" where
  "gulong_of_int x = nat (x mod 2 ^ 64)"

definition waiting_usec_of :: "16 word \<Rightarrow> int" where
  "waiting_usec_of h = int32_wrap ((uint h div 2) * 1000000)"

datatype hrtbt_pc =
    H_enter       \<comment> \<open>line 638\<close>
  | H_while       \<comment> \<open>line 644\<close>
  | H_wait_frame  \<comment> \<open>lines 645-662: the poll under the mutex, and what follows from its
                     result up to the next read of a flag\<close>
  | H_reconnect   \<comment> \<open>lines 663-671\<close>
  | H_leave       \<comment> \<open>line 678\<close>

text \<open>
  What the thread does that can be seen from outside, in order: the poll with its result,
  \<open>amqp_destroy_connection\<close> on a connection, a call of \<open>janus_rabbitmqevh_connect\<close>
  with the calls it made and its result, and \<open>g_usleep\<close> with its argument in
  microseconds.
\<close>

datatype hrtbt_call =
    Wait_frame nat amqp_status
  | Destroy_connection nat
  | Connect "amqp_call list" int
  | Usleep nat

text \<open>
  \<open>rmq_conn\<close> numbers the connection objects: \<open>janus_rabbitmqevh_connect\<close> starts
  by putting a new one in the variable (line 347). \<open>amqp_new_connection\<close> is taken to
  succeed, so that the variable is never \<open>NULL\<close> at line 660.
\<close>

record hrtbt_state = flags +
  cfg :: config
  rmq_conn :: nat
  waiting_usec :: int
  hpc :: hrtbt_pc
  trace :: "hrtbt_call list"

definition hrtbt_step :: "amqp_status \<Rightarrow> answers \<Rightarrow> hrtbt_state \<Rightarrow> hrtbt_state" where
  "hrtbt_step res a s =
     (case hpc s of
        H_enter \<Rightarrow> s\<lparr>waiting_usec := waiting_usec_of (heartbeat (cfg s)), hpc := H_while\<rparr>
      | H_while \<Rightarrow>
          if initialized s \<and> \<not> stopping s then s\<lparr>hpc := H_wait_frame\<rparr>
          else s\<lparr>hpc := H_leave\<rparr>
      | H_wait_frame \<Rightarrow>
          if res \<noteq> AMQP_STATUS_OK then
            if res = AMQP_STATUS_TIMEOUT \<or> res = AMQP_STATUS_SSL_ERROR then
              s\<lparr>trace := trace s @ [Wait_frame (rmq_conn s) res,
                                      Usleep (gulong_of_int (waiting_usec s))],
                hpc := H_while\<rparr>
            else
              s\<lparr>trace := trace s @ [Wait_frame (rmq_conn s) res,
                                      Destroy_connection (rmq_conn s)],
                hpc := H_reconnect\<rparr>
          else
            s\<lparr>trace := trace s @ [Wait_frame (rmq_conn s) res,
                                    Usleep (gulong_of_int (waiting_usec s))],
              hpc := H_while\<rparr>
      | H_reconnect \<Rightarrow>
          if \<not> stopping s then
            (case janus_rabbitmqevh_connect (cfg s) a of
               (calls, result) \<Rightarrow>
                 s\<lparr>rmq_conn := Suc (rmq_conn s),
                   trace := trace s @
                     [Connect calls result,
                      Usleep (if result < 0 then 5000000
                              else gulong_of_int (waiting_usec s))],
                   hpc := H_while\<rparr>)
          else s\<lparr>hpc := H_while\<rparr>
      | H_leave \<Rightarrow> s)"

text \<open>
  A run of the heartbeat thread: its own steps, each with what the poll and the broker
  would answer, and the setting of the stop flag by \<open>destroy\<close> (line 434).
\<close>

datatype hrtbt_action = Hrtbt amqp_status answers | Stop

fun hrtbt_do :: "hrtbt_action \<Rightarrow> hrtbt_state \<Rightarrow> hrtbt_state" where
  "hrtbt_do (Hrtbt res a) s = hrtbt_step res a s"
| "hrtbt_do Stop s = s\<lparr>stopping := True\<rparr>"

definition hrtbt_run :: "hrtbt_action list \<Rightarrow> hrtbt_state \<Rightarrow> hrtbt_state" where
  "hrtbt_run as s = fold hrtbt_do as s"

text \<open>
  The state in which \<open>janus_rabbitmqevh_init\<close> creates the thread (lines 303 and
  314-315), after the first connection.
\<close>

definition hrtbt_init :: "config \<Rightarrow> hrtbt_state" where
  "hrtbt_init c =
     \<lparr>initialized = True, stopping = False, cfg = c, rmq_conn = 0, waiting_usec = 0,
      hpc = H_enter, trace = []\<rparr>"

subsection \<open>The serialisation format, lines 103 and 175-191\<close>

text \<open>jansson's flags: \<open>JSON_INDENT(n)\<close> is \<open>n & 0x1F\<close>.\<close>

definition JSON_INDENT :: "nat \<Rightarrow> nat" where
  "JSON_INDENT n = n mod 32"

definition JSON_COMPACT :: nat where
  "JSON_COMPACT = 32"

definition JSON_PRESERVE_ORDER :: nat where
  "JSON_PRESERVE_ORDER = 256"

text \<open>
  The value of \<open>json_format\<close> after \<open>janus_rabbitmqevh_init\<close>, from the item \<open>json\<close>
  of the configuration (\<open>None\<close>: no such item). The flags have no bit in common, so
  that their bitwise disjunction is their sum.
\<close>

definition json_format_of :: "string option \<Rightarrow> nat" where
  "json_format_of item =
     (case item of
        None \<Rightarrow> JSON_INDENT 3 + JSON_PRESERVE_ORDER
      | Some v \<Rightarrow>
          if strcasecmp_eq v ''indented'' then JSON_INDENT 3 + JSON_PRESERVE_ORDER
          else if strcasecmp_eq v ''plain'' then JSON_INDENT 0 + JSON_PRESERVE_ORDER
          else if strcasecmp_eq v ''compact'' then JSON_COMPACT + JSON_PRESERVE_ORDER
          else JSON_INDENT 3 + JSON_PRESERVE_ORDER)"

section \<open>Properties\<close>

subsection \<open>Predicates on states and runs\<close>

text \<open>An address of an event of the core: neither \<open>NULL\<close> nor the shutdown token.\<close>

fun is_event :: "json_ptr \<Rightarrow> bool" where
  "is_event (Event a) = True"
| "is_event p = False"

fun not_single :: "json_out option \<Rightarrow> bool" where
  "not_single (Some (Single e)) = False"
| "not_single out = True"

text \<open>The publishes the broker accepted.\<close>

fun accepted :: "json_out \<times> string \<times> amqp_status \<Rightarrow> bool" where
  "accepted (v, t, status) = (status = AMQP_STATUS_OK)"

text \<open>
  What a list of calls of \<open>json_dumps\<close> gives to publish when each text is published
  once: the values that were serialised with success, each with its text, in order.
\<close>

fun body :: "json_out \<times> string \<times> amqp_status \<Rightarrow> json_out \<times> string" where
  "body (v, t, status) = (v, t)"

fun publishes :: "ext \<Rightarrow> (json_out option \<times> nat) list \<Rightarrow> (json_out \<times> string) list" where
  "publishes X [] = []"
| "publishes X ((None, f) # D) = publishes X D"
| "publishes X ((Some v, f) # D) =
     (case json_dumps X v f of None \<Rightarrow> publishes X D | Some t \<Rightarrow> (v, t) # publishes X D)"

text \<open>The events in a list of calls of \<open>json_dumps\<close>.\<close>

definition dumped_events :: "(json_out option \<times> nat) list \<Rightarrow> json_ptr set" where
  "dumped_events D = (\<Union>(v, f) \<in> set D. set (batch v))"

text \<open>
  The events the handler thread can still serialise without a new delivery: those in the
  queue, those of the callers of \<open>incoming_event\<close> that have passed line 496, those of
  the group under construction, and the event popped and not yet appended.
\<close>

definition pending :: "state \<Rightarrow> json_ptr set" where
  "pending s =
     set (events s) \<union> set (checked s) \<union> set (batch (output' s)) \<union>
     (if pc s = Handle then {event s} else {})"

text \<open>
  What a step brings in: the event delivered to \<open>incoming_event\<close>, or the shutdown token
  that \<open>destroy\<close> pushes.
\<close>

fun delivered :: "action \<Rightarrow> json_ptr set" where
  "delivered (Incoming e) = {e}"
| "delivered Destroy = {exit_event}"
| "delivered a = {}"

text \<open>
  Between two states: the calls of \<open>json_dumps\<close> and of \<open>amqp_basic_publish\<close> are
  extended, each text is published once, and what is serialised and what is still pending
  is among the events \<open>E\<close>.
\<close>

definition sent_between :: "ext \<Rightarrow> json_ptr set \<Rightarrow> state \<Rightarrow> state \<Rightarrow> bool" where
  "sent_between X E s s' =
     (\<exists>D P. dumped s' = dumped s @ D \<and> published s' = published s @ P \<and>
        map body P = publishes X D \<and> dumped_events D \<subseteq> E \<and> pending s' \<subseteq> E)"

text \<open>
  The handler thread's locals and its calls of \<open>json_dumps\<close>, which no other thread
  touches.
\<close>

definition hdlr_view ::
  "state \<Rightarrow> hdlr_pc \<times> json_out option \<times> int \<times> int \<times> (json_out option \<times> nat) list" where
  "hdlr_view s = (pc s, output' s, count s, max_n s, dumped s)"

text \<open>
  The size of the group under construction, once \<open>max\<close> has the value \<open>M\<close> (it is
  assigned at line 565 only).
\<close>

definition inv_size :: "int \<Rightarrow> state \<Rightarrow> bool" where
  "inv_size M s =
     (pc s \<noteq> Enter \<and> max_n s = M \<and>
      (pc s = Handle \<longrightarrow>
         not_single (output' s) \<and> count s = int (length (batch (output' s))) \<and> count s < M) \<and>
      (pc s = Try_pop \<longrightarrow>
         not_single (output' s) \<and> count s = int (length (batch (output' s))) \<and>
         1 \<le> count s \<and> count s < M) \<and>
      (pc s = Send \<longrightarrow>
         1 \<le> length (batch (output' s)) \<and> int (length (batch (output' s))) \<le> M) \<and>
      list_all (\<lambda>(v, f). 1 \<le> length (batch v) \<and> int (length (batch v)) \<le> M) (dumped s))"

text \<open>Only events of the core are grouped, serialised and published.\<close>

definition inv_exit :: "state \<Rightarrow> bool" where
  "inv_exit s =
     ((pc s = Handle \<longrightarrow> is_event (event s)) \<and>
      NULL \<notin> set (events s) \<and>
      list_all is_event (batch (output' s)) \<and>
      list_all (\<lambda>(v, f). list_all is_event (batch v)) (dumped s) \<and>
      list_all (\<lambda>(v, t, status). list_all is_event (batch (Some v))) (published s))"

text \<open>
  The shutdown token and the stop flag: \<open>destroy\<close> sets the flag before it pushes the
  token and resets it after the handler thread has returned.
\<close>

definition inv_stop :: "state \<Rightarrow> bool" where
  "inv_stop s =
     (exit_event \<notin> set (checked s) \<and>
      (stopping s \<longleftrightarrow> dpc s = Stop_set \<or> dpc s = Exit_pushed) \<and>
      (exit_event \<in> set (events s) \<longrightarrow> dpc s = Exit_pushed) \<and>
      (event s = exit_event \<longrightarrow>
         pc s = Leave \<or> (dpc s = Exit_pushed \<and> (pc s = Send \<or> pc s = While_cond))))"

text \<open>The polls after which the heartbeat thread reconnects.\<close>

definition hard :: "amqp_status \<Rightarrow> bool" where
  "hard res = (res \<noteq> AMQP_STATUS_OK \<and> res \<noteq> AMQP_STATUS_TIMEOUT \<and> res \<noteq> AMQP_STATUS_SSL_ERROR)"

text \<open>
  The steps of one iteration of the heartbeat thread's loop when nothing stops it: the
  loop's condition, the poll, and the reconnection after a hard error.
\<close>

fun iteration :: "amqp_status \<times> answers \<Rightarrow> hrtbt_action list" where
  "iteration (res, a) =
     (if hard res then [Hrtbt res a, Hrtbt res a, Hrtbt res a] else [Hrtbt res a, Hrtbt res a])"

fun connects :: "hrtbt_call list \<Rightarrow> nat" where
  "connects [] = 0"
| "connects (Connect calls result # t) = Suc (connects t)"
| "connects (c # t) = connects t"

fun sleeps :: "hrtbt_call list \<Rightarrow> nat list" where
  "sleeps [] = []"
| "sleeps (Usleep n # t) = n # sleeps t"
| "sleeps (c # t) = sleeps t"

text \<open>What the thread sleeps at the end of an iteration, from the value of \<open>waiting_usec\<close>.\<close>

fun iteration_sleep :: "config \<Rightarrow> int \<Rightarrow> amqp_status \<times> answers \<Rightarrow> nat" where
  "iteration_sleep c w (res, a) =
     (if hard res \<and> snd (janus_rabbitmqevh_connect c a) < 0 then 5000000 else gulong_of_int w)"

text \<open>
  The same with the wait written in seconds of the heartbeat: 5 seconds after a failed
  connection, else the whole seconds in half the heartbeat.
\<close>

fun backoff_or_half :: "config \<Rightarrow> amqp_status \<times> answers \<Rightarrow> nat" where
  "backoff_or_half c (res, a) =
     (if hard res \<and> snd (janus_rabbitmqevh_connect c a) < 0 then 5000000
      else (unat (heartbeat c) div 2) * 1000000)"

subsection \<open>Concrete collaborators, configurations and states\<close>

definition ext_ok :: ext where
  "ext_ok =
     \<lparr>json_dumps = (\<lambda>v f. Some ''{}''),
      janus_events_edit_events_mask = (\<lambda>t m. m),
      JANUS_VALIDATE_JSON_OBJECT = (\<lambda>r ps missing invalid. (0, []))\<rparr>"

definition ext_dumps_fails :: ext where
  "ext_dumps_fails = ext_ok\<lparr>json_dumps := (\<lambda>v f. None)\<rparr>"

definition no_refs :: refcounts where
  "no_refs = (\<lambda>p. 0)"

definition H :: action where
  "H = Hdlr AMQP_STATUS_OK"

text \<open>A call of \<open>incoming_event\<close> that no other thread interrupts.\<close>

definition incoming :: "nat \<Rightarrow> action list" where
  "incoming n = [Incoming (Event n), Incoming_push (Event n)]"

definition tweak_grouping_on :: json where
  "tweak_grouping_on = JSON_OBJECT [(''request'', JSON_STRING ''tweak''), (''grouping'', JSON_TRUE)]"

text \<open>The handler thread about to send a group of two events.\<close>

definition at_send :: state where
  "at_send =
     (init_state True (json_format_of None) 0 no_refs)
       \<lparr>pc := Send, event := Event 2, output' := Some (Array [Event 1, Event 2]), count := 2,
         max_n := 100, events := [Event 3]\<rparr>"

text \<open>An encrypted connection with a client certificate and key.\<close>

definition tls_config :: config where
  "tls_config =
     \<lparr>rmqhost = ''localhost'', rmqport = 5671, vhost = ''/'', username = ''guest'',
      password = ''guest'', ssl_enable = True, ssl_verify_peer = True,
      ssl_verify_hostname = True, ssl_cacert_file = Some ''ca.pem'',
      ssl_cert_file = Some ''cert.pem'', ssl_key_file = Some ''key.pem'',
      route_key = ''janus-events'', exchange = Some ''janus-exchange'',
      exchange_type = ''fanout'', heartbeat = 60, declare_outgoing_queue = True\<rparr>"

definition all_ok :: answers where
  "all_ok =
     \<lparr>ssl_socket_new = True, tcp_socket_new = True, set_cacert = AMQP_STATUS_OK,
      set_key = AMQP_STATUS_OK, socket_open = AMQP_STATUS_OK, login = AMQP_RESPONSE_NORMAL,
      channel_open = AMQP_RESPONSE_NORMAL, exchange_declare = AMQP_RESPONSE_NORMAL,
      queue_declare = AMQP_RESPONSE_NORMAL\<rparr>"

definition refused :: answers where
  "refused = all_ok\<lparr>socket_open := AMQP_STATUS_SOCKET_ERROR\<rparr>"

text \<open>The state \<open>init\<close> leaves with grouping enabled, and with grouping disabled.\<close>

definition grouping_on :: state where
  "grouping_on = init_state True (json_format_of None) 0 no_refs"

definition grouping_off :: state where
  "grouping_off = init_state False (json_format_of None) 0 no_refs"

text \<open>
  Two events are queued and sent as one group, then \<open>destroy\<close> sets the stop flag and
  pushes the shutdown token while the handler thread is about to pop.
\<close>

definition token_first :: "action list" where
  "token_first = [H, H] @ incoming 1 @ incoming 2 @ [H, H, H, H, H, H, H, H, Destroy, Destroy]"

text \<open>
  The handler thread pops an event, \<open>destroy\<close> sets the stop flag and pushes the
  shutdown token, and the thread appends the event and is about to pop again.
\<close>

definition token_mid_drain :: "action list" where
  "token_mid_drain = [H, H] @ incoming 1 @ [H, Destroy, Destroy, H]"

text \<open>The handler thread after line 565, with grouping enabled and with grouping disabled.\<close>

definition started_on :: state where
  "started_on = hdlr_step ext_ok AMQP_STATUS_OK grouping_on"

definition started_off :: state where
  "started_off = hdlr_step ext_ok AMQP_STATUS_OK grouping_off"

text \<open>
  The handler thread reads the loop's condition, and 101 events are queued while it is
  about to pop.
\<close>

definition full_queue :: "action list" where
  "full_queue = [H] @ concat (map incoming [0..<101])"

text \<open>Two events are queued and the handler thread has sent the first.\<close>

definition two_events :: "action list" where
  "two_events = [H] @ incoming 1 @ incoming 2 @ [H, H, H]"

text \<open>One event is queued, collected and sent.\<close>

definition one_event :: "action list" where
  "one_event = [H, H] @ incoming 1 @ [H, H, H, H]"

text \<open>
  The handler thread has started; a request enables the grouping; three events are queued
  and the thread pops the first.
\<close>

definition late_grouping :: "action list" where
  "late_grouping =
     [Request tweak_grouping_on] @ incoming 1 @ incoming 2 @ incoming 3 @ [H, H]"

text \<open>
  The handler thread has started; a request enables the grouping; the thread reads the
  loop's condition, and 101 events are queued while it is about to pop.
\<close>

definition late_full_queue :: "action list" where
  "late_full_queue = [Request tweak_grouping_on, H] @ concat (map incoming [0..<101])"

text \<open>The handler thread has started; an event is queued and popped.\<close>

definition one_popped :: "action list" where
  "one_popped = [H] @ incoming 1 @ [H]"

text \<open>One event is queued while the handler thread is about to pop.\<close>

definition one_queued :: "action list" where
  "one_queued = [H, H] @ incoming 1"

definition compact_off :: state where
  "compact_off = init_state False (json_format_of (Some ''Compact'')) 0 no_refs"

text \<open>
  The handler thread has started with grouping enabled; a request disables the grouping;
  an event is queued and popped.
\<close>

definition tweak_grouping_off :: json where
  "tweak_grouping_off =
     JSON_OBJECT [(''request'', JSON_STRING ''TWEAK''), (''grouping'', JSON_FALSE)]"

definition late_single :: "action list" where
  "late_single = [H, H, Request tweak_grouping_off] @ incoming 1 @ [H]"

text \<open>
  The heartbeat thread polls three times: a socket error, after which the broker refuses the
  connection; a closed connection, after which the broker accepts; then a frame.
\<close>

definition scenario_d :: "(amqp_status \<times> answers) list" where
  "scenario_d =
     [(AMQP_STATUS_SOCKET_ERROR, refused), (AMQP_STATUS_CONNECTION_CLOSED, all_ok),
      (AMQP_STATUS_OK, all_ok)]"

definition heartbeat_1 :: config where
  "heartbeat_1 = tls_config\<lparr>heartbeat := 1\<rparr>"

text \<open>The thread starts, reads the loop's condition and polls.\<close>

definition one_poll :: "amqp_status \<Rightarrow> hrtbt_action list" where
  "one_poll res = [Hrtbt res all_ok, Hrtbt res all_ok, Hrtbt res all_ok]"

text \<open>
  The thread starts, reads the loop's condition, polls a closed connection and reconnects
  with success.
\<close>

definition one_reconnect :: "hrtbt_action list" where
  "one_reconnect =
     one_poll AMQP_STATUS_CONNECTION_CLOSED @ [Hrtbt AMQP_STATUS_CONNECTION_CLOSED all_ok]"

subsection \<open>The queue and the steps of the handler thread\<close>

lemma is_event_iff: "is_event p \<longleftrightarrow> p \<noteq> NULL \<and> p \<noteq> exit_event"
  by (cases p) auto

lemma g_async_queue_pop_Some [simp]:
  "g_async_queue_pop q = Some (a, b) \<longleftrightarrow> q = a # b"
  by (cases q) auto

lemma g_async_queue_pop_None [simp]: "g_async_queue_pop q = None \<longleftrightarrow> q = []"
  by (cases q) auto

lemma g_async_queue_try_pop_eq [simp]:
  "g_async_queue_try_pop q = (a, b) \<longleftrightarrow> (q = [] \<and> a = NULL \<and> b = []) \<or> q = a # b"
  by (cases q) auto

lemma append_new_eq:
  "not_single out \<Longrightarrow> append_new out e rc = (Some (Array (batch out @ [e])), rc)"
  by (induction out e rc rule: append_new.induct) auto

lemma run_Nil [simp]: "run X [] s = s"
  by (simp add: run_def)

lemma run_Cons [simp]: "run X (a # as) s = run X as (step X a s)"
  by (simp add: run_def)

lemma run_append: "run X (as @ bs) s = run X bs (run X as s)"
  by (simp add: run_def)

lemma run_hdlr_Suc:
  "run X (replicate (Suc n) (Hdlr st)) s = run X (replicate n (Hdlr st)) (hdlr_step X st s)"
  by simp

lemma run_hdlr_add:
  "run X (replicate (m + n) (Hdlr st)) s =
   run X (replicate n (Hdlr st)) (run X (replicate m (Hdlr st)) s)"
  by (simp add: replicate_add run_append)

lemma step_while_cond:
  "pc s = While_cond \<Longrightarrow>
   hdlr_step X st s = (if initialized s \<and> \<not> stopping s then s\<lparr>pc := Pop\<rparr> else s\<lparr>pc := Leave\<rparr>)"
  by (simp add: hdlr_step_def)

lemma step_pop_event:
  assumes "pc s = Pop" "events s = a # q" "is_event a"
  shows "hdlr_step X st s = s\<lparr>event := a, events := q, count := 0, output' := None, pc := Handle\<rparr>"
  using assms by (simp add: hdlr_step_def hdlr_pop_def is_event_iff)

lemma step_pop_exit:
  assumes "pc s = Pop" "events s = exit_event # q"
  shows "hdlr_step X st s = s\<lparr>event := exit_event, events := q, pc := Leave\<rparr>"
  using assms by (simp add: hdlr_step_def hdlr_pop_def)

lemma step_handle_single:
  assumes "pc s = Handle" "\<not> group_events s"
  shows "hdlr_step X st s = s\<lparr>output' := Some (Single (event s)), pc := Send\<rparr>"
  using assms by (simp add: hdlr_step_def hdlr_handle_def)

lemma step_handle_grouping:
  assumes "pc s = Handle" "group_events s" "not_single (output' s)"
  shows "hdlr_step X st s =
     s\<lparr>output' := Some (Array (batch (output' s) @ [event s])), count := count s + 1,
       pc := (if count s + 1 = max_n s then Send else Try_pop)\<rparr>"
  using assms by (simp add: hdlr_step_def hdlr_handle_def append_new_eq)

lemma step_try_pop_event:
  assumes "pc s = Try_pop" "events s = a # q" "is_event a"
  shows "hdlr_step X st s = s\<lparr>event := a, events := q, pc := Handle\<rparr>"
  using assms by (simp add: hdlr_step_def hdlr_try_pop_def is_event_iff)

lemma step_try_pop_end:
  assumes "pc s = Try_pop" "events s = [] \<or> hd (events s) = exit_event"
  shows "hdlr_step X st s =
     s\<lparr>event := (if events s = [] then NULL else exit_event), events := tl (events s),
       pc := Send\<rparr>"
  using assms by (cases "events s") (auto simp add: hdlr_step_def hdlr_try_pop_def)

lemma step_send_stopping:
  assumes "pc s = Send" "stopping s"
  shows "hdlr_step X st s =
     s\<lparr>refcount := json_decref_out (output' s) (refcount s), output' := None, pc := While_cond\<rparr>"
  using assms by (simp add: hdlr_step_def hdlr_send_def)

lemma step_send_dumps_fails:
  assumes "pc s = Send" "\<not> stopping s"
    and "\<forall>v. output' s = Some v \<longrightarrow> json_dumps X v (json_format s) = None"
  shows "hdlr_step X st s =
     s\<lparr>dumped := dumped s @ [(output' s, json_format s)],
       logged := logged s @ [Failed_to_stringify],
       refcount := json_decref_out (output' s) (refcount s), output' := None,
       pc := While_cond\<rparr>"
  using assms by (cases "output' s") (simp_all add: hdlr_step_def hdlr_send_def)

lemma step_send_publish:
  assumes "pc s = Send" "\<not> stopping s" "output' s = Some v"
    and "json_dumps X v (json_format s) = Some t"
  shows "hdlr_step X st s =
     s\<lparr>dumped := dumped s @ [(Some v, json_format s)],
       published := published s @ [(v, t, st)],
       logged := (if st \<noteq> AMQP_STATUS_OK then logged s @ [Error_publishing st] else logged s),
       refcount := json_decref_out (Some v) (refcount s), output' := None,
       pc := While_cond\<rparr>"
  using assms by (simp add: hdlr_step_def hdlr_send_def)

text \<open>
  From line 601 to the next event: whatever the outcome at line 601, when nothing stops
  the thread it reads the loop's condition and pops the head of the queue as the first
  event of a new group.
\<close>

lemma next_event_popped:
  assumes "pc s = Send" "initialized s" "\<not> stopping s" "events s = r # q" "is_event r"
  shows "pc (run X (replicate 3 (Hdlr st)) s) = Handle \<and>
         event (run X (replicate 3 (Hdlr st)) s) = r \<and>
         output' (run X (replicate 3 (Hdlr st)) s) = None \<and>
         count (run X (replicate 3 (Hdlr st)) s) = 0 \<and>
         events (run X (replicate 3 (Hdlr st)) s) = q"
proof -
  define s1 where "s1 = hdlr_step X st s"
  have s1: "pc s1 = While_cond" "initialized s1" "\<not> stopping s1" "events s1 = r # q"
    using assms by (auto simp: s1_def hdlr_step_def hdlr_send_def split: option.splits)
  define s2 where "s2 = hdlr_step X st s1"
  have s2: "pc s2 = Pop" "events s2 = r # q"
    using s1 by (simp_all add: s2_def step_while_cond)
  have "hdlr_step X st s2 =
      s2\<lparr>event := r, events := q, count := 0, output' := None, pc := Handle\<rparr>"
    using s2 assms(5) by (intro step_pop_event)
  moreover have "replicate 3 (Hdlr st) = [Hdlr st, Hdlr st, Hdlr st]"
    by (simp add: numeral_3_eq_3)
  ultimately show ?thesis
    by (simp add: s1_def [symmetric] s2_def [symmetric])
qed

subsection \<open>What the other threads leave alone\<close>

lemma request_cases:
  "step X (Request r) s = s \<or> step X (Request r) s = tweak X r s"
  by (simp add: janus_rabbitmqevh_handle_request_def split: prod.splits option.splits)

lemma view_tweak: "hdlr_view (tweak X r s) = hdlr_view s"
  by (simp add: hdlr_view_def tweak_def Let_def)

lemma view_request: "hdlr_view (step X (Request r) s) = hdlr_view s"
  using request_cases [of X r s] by (auto simp: view_tweak)

lemma view_enter: "hdlr_view (incoming_event_enter e s) = hdlr_view s"
  by (simp add: hdlr_view_def incoming_event_enter_def)

lemma view_push: "hdlr_view (incoming_event_push e s) = hdlr_view s"
  by (simp add: hdlr_view_def incoming_event_push_def)

lemma view_destroy: "hdlr_view (destroy_step s) = hdlr_view s"
  by (cases "dpc s") (simp_all add: hdlr_view_def destroy_step_def)

lemma view_step:
  "\<not> (\<exists>st. a = Hdlr st) \<Longrightarrow> hdlr_view (step X a s) = hdlr_view s"
  by (cases a) (simp_all add: view_enter view_push view_destroy view_request del: step.simps(4))

subsection \<open>The size of a group\<close>

lemma inv_size_view: "hdlr_view s' = hdlr_view s \<Longrightarrow> inv_size M s' = inv_size M s"
  by (simp add: inv_size_def hdlr_view_def)

lemma inv_size_pop: "inv_size M s \<Longrightarrow> pc s = Pop \<Longrightarrow> 1 \<le> M \<Longrightarrow> inv_size M (hdlr_pop s)"
  by (cases "events s") (auto simp: inv_size_def hdlr_pop_def)

lemma inv_size_try_pop: "inv_size M s \<Longrightarrow> pc s = Try_pop \<Longrightarrow> inv_size M (hdlr_try_pop s)"
  by (cases "events s") (auto simp: inv_size_def hdlr_try_pop_def)

lemma inv_size_handle: "inv_size M s \<Longrightarrow> pc s = Handle \<Longrightarrow> inv_size M (hdlr_handle s)"
proof (cases "group_events s")
  case False
  assume "inv_size M s" "pc s = Handle"
  with False show ?thesis by (simp add: inv_size_def hdlr_handle_def)
next
  case True
  assume i: "inv_size M s" and p: "pc s = Handle"
  from i p have "not_single (output' s)" by (simp add: inv_size_def)
  from append_new_eq [OF this] i p True show ?thesis
    by (auto simp: inv_size_def hdlr_handle_def Let_def)
qed

lemma inv_size_send: "inv_size M s \<Longrightarrow> pc s = Send \<Longrightarrow> inv_size M (hdlr_send X st s)"
  by (auto simp: inv_size_def hdlr_send_def split: option.splits)

lemma inv_size_hdlr: "1 \<le> M \<Longrightarrow> inv_size M s \<Longrightarrow> inv_size M (hdlr_step X st s)"
  by (cases "pc s")
    (simp_all add: hdlr_step_def inv_size_pop inv_size_try_pop inv_size_handle inv_size_send,
     simp_all add: inv_size_def)

lemma inv_size_step: "1 \<le> M \<Longrightarrow> inv_size M s \<Longrightarrow> inv_size M (step X a s)"
proof (cases "\<exists>st. a = Hdlr st")
  case True
  assume "1 \<le> M" "inv_size M s"
  with True show ?thesis by (auto simp: inv_size_hdlr)
next
  case False
  assume i: "inv_size M s"
  from view_step [OF False, of X s] have "inv_size M (step X a s) = inv_size M s"
    by (rule inv_size_view)
  with i show ?thesis by simp
qed

lemma inv_size_run: "1 \<le> M \<Longrightarrow> inv_size M s \<Longrightarrow> inv_size M (run X as s)"
  by (induction as arbitrary: s) (simp_all add: inv_size_step)

subsection \<open>Only events of the core are grouped\<close>

lemma inv_exit_hdlr: "inv_exit s \<Longrightarrow> inv_exit (hdlr_step X st s)"
proof (cases "pc s")
  case Pop
  assume "inv_exit s"
  with Pop show ?thesis
    by (cases "events s") (auto simp: inv_exit_def hdlr_step_def hdlr_pop_def is_event_iff)
next
  case Handle
  assume i: "inv_exit s"
  show ?thesis
  proof (cases "output' s")
    case None
    with i Handle show ?thesis
      by (auto simp: inv_exit_def hdlr_step_def hdlr_handle_def Let_def)
  next
    case (Some v)
    with i Handle show ?thesis
      by (cases v) (auto simp: inv_exit_def hdlr_step_def hdlr_handle_def Let_def)
  qed
next
  case Try_pop
  assume "inv_exit s"
  with Try_pop show ?thesis
    by (cases "events s") (auto simp: inv_exit_def hdlr_step_def hdlr_try_pop_def is_event_iff)
next
  case Send
  assume "inv_exit s"
  with Send show ?thesis
    by (auto simp: inv_exit_def hdlr_step_def hdlr_send_def split: option.splits)
qed (auto simp: inv_exit_def hdlr_step_def)

lemma inv_exit_tweak: "inv_exit (tweak X r s) = inv_exit s"
  by (simp add: inv_exit_def tweak_def Let_def)

lemma inv_exit_step: "inv_exit s \<Longrightarrow> inv_exit (step X a s)"
proof (cases a)
  case (Hdlr st)
  assume "inv_exit s"
  with Hdlr show ?thesis by (simp add: inv_exit_hdlr)
next
  case (Incoming e)
  assume "inv_exit s"
  with Incoming show ?thesis by (auto simp: inv_exit_def incoming_event_enter_def)
next
  case (Incoming_push e)
  assume "inv_exit s"
  with Incoming_push show ?thesis
    by (auto simp: inv_exit_def incoming_event_push_def g_async_queue_push_def)
next
  case (Request r)
  assume "inv_exit s"
  with request_cases [of X r s] Request show ?thesis by (auto simp: inv_exit_tweak)
next
  case Destroy
  assume "inv_exit s"
  with Destroy show ?thesis
    by (cases "dpc s") (auto simp: inv_exit_def destroy_step_def g_async_queue_push_def)
qed

lemma inv_exit_run: "inv_exit s \<Longrightarrow> inv_exit (run X as s)"
  by (induction as arbitrary: s) (simp_all add: inv_exit_step)

lemma inv_exit_init: "inv_exit (init_state g fmt m rc)"
  by (simp add: inv_exit_def init_state_def)

subsection \<open>The shutdown token and the stop flag\<close>

lemma inv_stop_hdlr: "inv_stop s \<Longrightarrow> inv_stop (hdlr_step X st s)"
proof (cases "pc s")
  case Pop
  assume "inv_stop s"
  with Pop show ?thesis
    by (cases "events s") (auto simp: inv_stop_def hdlr_step_def hdlr_pop_def)
next
  case Handle
  assume "inv_stop s"
  with Handle show ?thesis
    by (auto simp: inv_stop_def hdlr_step_def hdlr_handle_def Let_def split: prod.splits)
next
  case Try_pop
  assume "inv_stop s"
  with Try_pop show ?thesis
    by (cases "events s") (auto simp: inv_stop_def hdlr_step_def hdlr_try_pop_def)
next
  case Send
  assume "inv_stop s"
  with Send show ?thesis
    by (auto simp: inv_stop_def hdlr_step_def hdlr_send_def split: option.splits)
qed (auto simp: inv_stop_def hdlr_step_def)

lemma inv_stop_tweak: "inv_stop (tweak X r s) = inv_stop s"
  by (simp add: inv_stop_def tweak_def Let_def)

lemma inv_stop_step:
  "inv_stop s \<Longrightarrow> a \<noteq> Incoming exit_event \<Longrightarrow> inv_stop (step X a s)"
proof (cases a)
  case (Hdlr st)
  assume "inv_stop s"
  with Hdlr show ?thesis by (simp add: inv_stop_hdlr)
next
  case (Incoming e)
  assume "inv_stop s" "a \<noteq> Incoming exit_event"
  with Incoming show ?thesis by (auto simp: inv_stop_def incoming_event_enter_def)
next
  case (Incoming_push e)
  assume "inv_stop s"
  with Incoming_push show ?thesis
    by (auto simp: inv_stop_def incoming_event_push_def g_async_queue_push_def
        dest: notin_set_remove1)
next
  case (Request r)
  assume "inv_stop s"
  with request_cases [of X r s] Request show ?thesis by (auto simp: inv_stop_tweak)
next
  case Destroy
  assume "inv_stop s"
  with Destroy show ?thesis
    by (cases "dpc s") (auto simp: inv_stop_def destroy_step_def g_async_queue_push_def)
qed

lemma inv_stop_run:
  "inv_stop s \<Longrightarrow> Incoming exit_event \<notin> set as \<Longrightarrow> inv_stop (run X as s)"
  by (induction as arbitrary: s) (auto simp: inv_stop_step)

lemma inv_stop_init: "inv_stop (init_state g fmt m rc)"
  by (simp add: inv_stop_def init_state_def)

subsection \<open>Collecting a group\<close>

lemma inner_loop:
  assumes "pc s = Handle" "group_events s" "not_single (output' s)"
    and "events s = es @ rest" "list_all is_event es"
    and "count s + 1 + int (length es) \<le> max_n s"
    and "count s + 1 + int (length es) = max_n s \<or> rest = [] \<or> hd rest = exit_event"
  shows "run X (replicate (2 * length es +
                  (if count s + 1 + int (length es) = max_n s then 1 else 2)) (Hdlr st)) s =
         s\<lparr>output' := Some (Array (batch (output' s) @ event s # es)),
           count := count s + 1 + int (length es),
           event := (if count s + 1 + int (length es) = max_n s then last (event s # es)
                     else if rest = [] then NULL else exit_event),
           events := (if count s + 1 + int (length es) = max_n s then rest else tl rest),
           pc := Send\<rparr>"
  using assms
proof (induction es arbitrary: s)
  case Nil
  show ?case
  proof (cases "count s + 1 = max_n s")
    case True
    with Nil show ?thesis by (simp add: step_handle_grouping)
  next
    case False
    define s1 where "s1 = s\<lparr>output' := Some (Array (batch (output' s) @ [event s])),
                 count := count s + 1, pc := Try_pop\<rparr>"
    have e1: "hdlr_step X st s = s1"
      using Nil False by (simp add: step_handle_grouping s1_def)
    have e2: "hdlr_step X st s1 =
        s1\<lparr>event := (if events s1 = [] then NULL else exit_event), events := tl (events s1),
          pc := Send\<rparr>"
      using Nil False by (intro step_try_pop_end) (auto simp: s1_def)
    have "(2::nat) = Suc (Suc 0)" by simp
    with Nil False show ?thesis
      by (simp add: e1 e2) (simp add: s1_def)
  qed
next
  case (Cons a es)
  define s1 where "s1 = s\<lparr>output' := Some (Array (batch (output' s) @ [event s])),
               count := count s + 1, pc := Try_pop\<rparr>"
  define s2 where "s2 = s1\<lparr>event := a, events := es @ rest, pc := Handle\<rparr>"
  have e1: "hdlr_step X st s = s1"
    using Cons.prems by (simp add: step_handle_grouping s1_def)
  have e2: "hdlr_step X st s1 = s2"
    unfolding s2_def using Cons.prems by (intro step_try_pop_event) (auto simp: s1_def)
  have ih: "run X (replicate (2 * length es +
                  (if count s2 + 1 + int (length es) = max_n s2 then 1 else 2)) (Hdlr st)) s2 =
         s2\<lparr>output' := Some (Array (batch (output' s2) @ event s2 # es)),
           count := count s2 + 1 + int (length es),
           event := (if count s2 + 1 + int (length es) = max_n s2 then last (event s2 # es)
                     else if rest = [] then NULL else exit_event),
           events := (if count s2 + 1 + int (length es) = max_n s2 then rest else tl rest),
           pc := Send\<rparr>"
    using Cons.prems by (intro Cons.IH) (auto simp: s1_def s2_def)
  have n: "2 * length (a # es) + k = Suc (Suc (2 * length es + k))" for k by simp
  show ?case
    unfolding n run_hdlr_Suc e1 e2 using ih Cons.prems
    by (auto simp: s1_def s2_def)
qed

text \<open>
  From the blocking pop to line 601: the events \<open>es\<close> at the head of the queue become the
  array, when \<open>max\<close> is reached or the queue ends or the shutdown token follows.
\<close>

lemma collect_group:
  assumes "pc s = Pop" "group_events s" "events s = es @ rest" "es \<noteq> []"
    and "list_all is_event es" "int (length es) \<le> max_n s"
    and "int (length es) = max_n s \<or> rest = [] \<or> hd rest = exit_event"
  shows "run X (replicate (2 * length es + (if int (length es) = max_n s then 0 else 1))
                  (Hdlr st)) s =
         s\<lparr>output' := Some (Array es), count := int (length es),
           event := (if int (length es) = max_n s then last es
                     else if rest = [] then NULL else exit_event),
           events := (if int (length es) = max_n s then rest else tl rest),
           pc := Send\<rparr>"
proof -
  from assms(4) obtain e es' where es: "es = e # es'" by (cases es) auto
  define s1 where "s1 = s\<lparr>event := e, events := es' @ rest, count := 0, output' := None,
                        pc := Handle\<rparr>"
  have e1: "hdlr_step X st s = s1"
    unfolding s1_def using assms es by (intro step_pop_event) auto
  have loop: "run X (replicate (2 * length es' +
                  (if count s1 + 1 + int (length es') = max_n s1 then 1 else 2)) (Hdlr st)) s1 =
         s1\<lparr>output' := Some (Array (batch (output' s1) @ event s1 # es')),
           count := count s1 + 1 + int (length es'),
           event := (if count s1 + 1 + int (length es') = max_n s1 then last (event s1 # es')
                     else if rest = [] then NULL else exit_event),
           events := (if count s1 + 1 + int (length es') = max_n s1 then rest else tl rest),
           pc := Send\<rparr>"
    using assms es by (intro inner_loop) (auto simp: s1_def)
  have n: "2 * length es + (if int (length es) = max_n s then 0 else 1) =
           Suc (2 * length es' + (if count s1 + 1 + int (length es') = max_n s1 then 1 else 2))"
    by (auto simp: es s1_def)
  show ?thesis
    unfolding n run_hdlr_Suc e1 using loop
    by (auto simp: s1_def es)
qed

subsection \<open>The entry point for events\<close>

lemma incoming_event_halves:
  "e \<notin> set (checked s) \<Longrightarrow> dpc s \<noteq> Destroyed \<Longrightarrow>
   incoming_event_push e (incoming_event_enter e s) = janus_rabbitmqevh_incoming_event e s"
  by (simp add: incoming_event_push_def incoming_event_enter_def
      janus_rabbitmqevh_incoming_event_def)

text \<open>
  C10. A call of \<open>janus_rabbitmqevh_incoming_event\<close> with an event returns with the state
  unchanged (no reference taken, nothing queued) when the stop flag is set or the handler is
  not initialised; otherwise it adds exactly one to the event's reference count, leaves the
  other counts as they are, and appends the event to the queue. The two halves of the
  call, run one after the other, are the call.
\<close>

theorem incoming_event_refs_and_queue:
  "janus_rabbitmqevh_incoming_event (Event a) s =
     (if stopping s \<or> \<not> initialized s then s
      else s\<lparr>refcount := (refcount s)(Event a := refcount s (Event a) + 1),
             events := events s @ [Event a]\<rparr>) \<and>
   (Event a \<notin> set (checked s) \<and> dpc s \<noteq> Destroyed \<longrightarrow>
      run X [Incoming (Event a), Incoming_push (Event a)] s =
        janus_rabbitmqevh_incoming_event (Event a) s)"
proof -
  have "janus_rabbitmqevh_incoming_event (Event a) s =
     (if stopping s \<or> \<not> initialized s then s
      else s\<lparr>refcount := (refcount s)(Event a := refcount s (Event a) + 1),
             events := events s @ [Event a]\<rparr>)"
    by (simp add: janus_rabbitmqevh_incoming_event_def json_incref_def g_async_queue_push_def)
  moreover have "run X [Incoming (Event a), Incoming_push (Event a)] s =
        janus_rabbitmqevh_incoming_event (Event a) s"
    if "Event a \<notin> set (checked s)" "dpc s \<noteq> Destroyed"
    using incoming_event_halves [OF that] by simp
  ultimately show ?thesis by blast
qed

theorem incoming_event_refs_and_queue_witness:
  "events (janus_rabbitmqevh_incoming_event (Event 7) at_send) = [Event 3, Event 7] \<and>
   refcount (janus_rabbitmqevh_incoming_event (Event 7) at_send) (Event 7) = 1 \<and>
   refcount (janus_rabbitmqevh_incoming_event (Event 7) at_send) (Event 3) = 0 \<and>
   janus_rabbitmqevh_incoming_event (Event 7) (at_send\<lparr>stopping := True\<rparr>) =
     at_send\<lparr>stopping := True\<rparr> \<and>
   janus_rabbitmqevh_incoming_event (Event 7) (at_send\<lparr>initialized := False\<rparr>) =
     at_send\<lparr>initialized := False\<rparr> \<and>
   Event 7 \<notin> set (checked at_send) \<and> dpc at_send \<noteq> Destroyed \<and>
   events (run ext_ok [Incoming (Event 7), Incoming_push (Event 7)] at_send) =
     [Event 3, Event 7]"
  using incoming_event_refs_and_queue [of 7 at_send ext_ok]
    incoming_event_refs_and_queue [of 7 "at_send\<lparr>stopping := True\<rparr>" ext_ok]
    incoming_event_refs_and_queue [of 7 "at_send\<lparr>initialized := False\<rparr>" ext_ok]
  by (simp add: at_send_def init_state_def no_refs_def del: run_Cons)

subsection \<open>Failures of the serialisation and of the publish\<close>

lemma publishes_append: "publishes X (D @ D') = publishes X D @ publishes X D'"
  by (induction X D rule: publishes.induct) (auto split: option.splits)

lemma dumped_events_simps [simp]:
  "dumped_events [] = {}"
  "dumped_events (D @ D') = dumped_events D \<union> dumped_events D'"
  "dumped_events [(v, f)] = set (batch v)"
  by (auto simp: dumped_events_def)

lemma sent_betweenI:
  assumes "dumped s' = dumped s @ D" "published s' = published s @ P"
    and "map body P = publishes X D" "dumped_events D \<subseteq> E" "pending s' \<subseteq> E"
  shows "sent_between X E s s'"
  unfolding sent_between_def using assms by blast

lemma sent_between_same:
  assumes "dumped s' = dumped s" "published s' = published s" "pending s' \<subseteq> E"
  shows "sent_between X E s s'"
  using assms by (intro sent_betweenI [where D = "[]" and P = "[]"]) simp_all

lemma sent_between_mono: "sent_between X E s s' \<Longrightarrow> E \<subseteq> F \<Longrightarrow> sent_between X F s s'"
  unfolding sent_between_def by blast

lemma sent_between_trans:
  assumes "sent_between X E s s'" "sent_between X E' s' s''" "E \<subseteq> F" "E' \<subseteq> F"
  shows "sent_between X F s s''"
proof -
  from assms(1) obtain D P where 1: "dumped s' = dumped s @ D" "published s' = published s @ P"
    "map body P = publishes X D" "dumped_events D \<subseteq> E"
    unfolding sent_between_def by blast
  from assms(2) obtain D' P' where 2: "dumped s'' = dumped s' @ D'"
    "published s'' = published s' @ P'" "map body P' = publishes X D'"
    "dumped_events D' \<subseteq> E'" "pending s'' \<subseteq> E'"
    unfolding sent_between_def by blast
  show ?thesis
    using 1 2 assms(3,4)
    by (intro sent_betweenI [where D = "D @ D'" and P = "P @ P'"])
      (auto simp: publishes_append)
qed

text \<open>One step of the handler thread serialises only what is pending and publishes a text once.\<close>

lemma sent_between_hdlr: "sent_between X (pending s) s (hdlr_step X st s)"
proof (cases "pc s")
  case Enter
  then show ?thesis
    by (intro sent_between_same) (auto simp: hdlr_step_def pending_def)
next
  case While_cond
  then show ?thesis
    by (intro sent_between_same) (auto simp: hdlr_step_def pending_def)
next
  case Pop
  then show ?thesis
    by (cases "events s")
      (auto intro!: sent_between_same simp: hdlr_step_def hdlr_pop_def pending_def)
next
  case Handle
  show ?thesis
  proof (cases "output' s")
    case None
    with Handle show ?thesis
      by (intro sent_between_same) (auto simp: hdlr_step_def hdlr_handle_def pending_def Let_def)
  next
    case (Some v)
    with Handle show ?thesis
      by (cases v; intro sent_between_same)
        (auto simp: hdlr_step_def hdlr_handle_def pending_def Let_def)
  qed
next
  case Try_pop
  then show ?thesis
    by (cases "events s")
      (auto intro!: sent_between_same simp: hdlr_step_def hdlr_try_pop_def pending_def)
next
  case Send
  show ?thesis
  proof (cases "stopping s")
    case True
    with Send show ?thesis
      by (intro sent_between_same) (auto simp: step_send_stopping pending_def)
  next
    case False
    show ?thesis
    proof (cases "\<forall>v. output' s = Some v \<longrightarrow> json_dumps X v (json_format s) = None")
      case True
      from step_send_dumps_fails [OF Send False True, of st] Send True show ?thesis
        by (intro sent_betweenI [where D = "[(output' s, json_format s)]" and P = "[]"])
          (cases "output' s"; auto simp: pending_def)+
    next
      case nf: False
      then obtain v t where v: "output' s = Some v" "json_dumps X v (json_format s) = Some t"
        by auto
      from step_send_publish [OF Send False v, of st] Send v show ?thesis
        by (intro sent_betweenI [where D = "[(Some v, json_format s)]" and P = "[(v, t, st)]"])
          (auto simp: pending_def)
    qed
  qed
next
  case Leave
  then show ?thesis
    by (intro sent_between_same) (auto simp: hdlr_step_def pending_def)
qed

lemma sent_between_tweak: "sent_between X (pending s) s (tweak X r s)"
  by (intro sent_between_same) (auto simp: tweak_def Let_def pending_def)

lemma sent_between_step: "sent_between X (pending s \<union> delivered a) s (step X a s)"
proof (cases a)
  case (Hdlr st)
  have "sent_between X (pending s \<union> delivered a) s (hdlr_step X st s)"
    by (rule sent_between_mono [OF sent_between_hdlr]) simp
  with Hdlr show ?thesis by simp
next
  case (Incoming e)
  then show ?thesis
    by (auto intro!: sent_between_same simp: incoming_event_enter_def pending_def)
next
  case (Incoming_push e)
  then show ?thesis
    by (auto intro!: sent_between_same
        simp: incoming_event_push_def pending_def g_async_queue_push_def
        dest: notin_set_remove1)
next
  case (Request r)
  from request_cases [of X r s] show ?thesis
  proof
    assume "step X (Request r) s = s"
    with Request show ?thesis by (auto intro!: sent_between_same)
  next
    assume "step X (Request r) s = tweak X r s"
    with Request show ?thesis
      by (auto intro!: sent_between_same simp: tweak_def Let_def pending_def)
  qed
next
  case Destroy
  then show ?thesis
    by (cases "dpc s")
      (auto intro!: sent_between_same simp: destroy_step_def pending_def g_async_queue_push_def)
qed

lemma sent_between_run:
  "sent_between X (pending s \<union> (\<Union>a \<in> set as. delivered a)) s (run X as s)"
proof (induction as arbitrary: s)
  case Nil
  show ?case by (auto intro!: sent_between_same)
next
  case (Cons a as)
  have p: "pending (step X a s) \<subseteq> pending s \<union> delivered a"
    using sent_between_step [of X s a] unfolding sent_between_def by blast
  have "sent_between X (pending s \<union> (\<Union>a \<in> set (a # as). delivered a)) s
      (run X as (step X a s))"
    by (rule sent_between_trans [OF sent_between_step Cons.IH]) (use p in auto)
  then show ?case by simp
qed


text \<open>
  C1. When the handler thread is at line 601, not stopping, and \<open>json_dumps\<close> fails on the
  group or \<open>amqp_basic_publish\<close> returns an error: \<open>json_dumps\<close> has been called once
  on the group; \<open>amqp_basic_publish\<close> has been called not at all when \<open>json_dumps\<close>
  failed and exactly once, with the status of the error, when it did not; the failure is
  logged, the broker has accepted nothing more, the group is released and is in no variable
  and not back in the queue, the thread is at the loop's condition (it has not returned)
  and enters the blocking pop at its next step; apart from the records of what was
  serialised, published and logged the state is the one a success leaves; and when an event
  is queued, it is popped next as the first event of a new, empty group. In every run that
  follows, whatever the interleaving, each text that is serialised is published once, and
  the events that are serialised are among those in the queue or held by a caller of
  \<open>incoming_event\<close> at the failure and those delivered since: an event of the failed
  group is serialised again only if the core delivers it again.
\<close>

theorem failure_drops_the_group:
  assumes "pc s = Send" "initialized s" "\<not> stopping s"
    and "(\<forall>v. output' s = Some v \<longrightarrow> json_dumps X v (json_format s) = None) \<or>
         status \<noteq> AMQP_STATUS_OK"
  shows "pc (hdlr_step X status s) = While_cond \<and>
         pc (hdlr_step X status' (hdlr_step X status s)) = Pop \<and>
         output' (hdlr_step X status s) = None \<and>
         events (hdlr_step X status s) = events s \<and>
         dumped (hdlr_step X status s) = dumped s @ [(output' s, json_format s)] \<and>
         published (hdlr_step X status s) =
           (case output' s of
              None \<Rightarrow> published s
            | Some v \<Rightarrow>
                (case json_dumps X v (json_format s) of
                   None \<Rightarrow> published s
                 | Some t \<Rightarrow> published s @ [(v, t, status)])) \<and>
         filter accepted (published (hdlr_step X status s)) = filter accepted (published s) \<and>
         logged (hdlr_step X status s) =
           logged s @ [if \<forall>v. output' s = Some v \<longrightarrow> json_dumps X v (json_format s) = None
                       then Failed_to_stringify else Error_publishing status] \<and>
         (hdlr_step X status s)\<lparr>dumped := d, published := p, logged := l\<rparr> =
           (hdlr_step X' AMQP_STATUS_OK s)\<lparr>dumped := d, published := p, logged := l\<rparr> \<and>
         (\<forall>r q. events s = r # q \<and> is_event r \<longrightarrow>
            pc (run X (replicate 3 (Hdlr status)) s) = Handle \<and>
            event (run X (replicate 3 (Hdlr status)) s) = r \<and>
            output' (run X (replicate 3 (Hdlr status)) s) = None \<and>
            count (run X (replicate 3 (Hdlr status)) s) = 0 \<and>
            events (run X (replicate 3 (Hdlr status)) s) = q) \<and>
         (\<exists>D P. dumped (run X as (hdlr_step X status s)) = dumped (hdlr_step X status s) @ D \<and>
            published (run X as (hdlr_step X status s)) =
              published (hdlr_step X status s) @ P \<and>
            map body P = publishes X D \<and>
            dumped_events D \<subseteq>
              set (events s) \<union> set (checked s) \<union> (\<Union>a \<in> set as. delivered a))"
proof -
  have step: "pc (hdlr_step X status s) = While_cond \<and>
         pc (hdlr_step X status' (hdlr_step X status s)) = Pop \<and>
         output' (hdlr_step X status s) = None \<and>
         events (hdlr_step X status s) = events s \<and>
         dumped (hdlr_step X status s) = dumped s @ [(output' s, json_format s)] \<and>
         published (hdlr_step X status s) =
           (case output' s of
              None \<Rightarrow> published s
            | Some v \<Rightarrow>
                (case json_dumps X v (json_format s) of
                   None \<Rightarrow> published s
                 | Some t \<Rightarrow> published s @ [(v, t, status)])) \<and>
         filter accepted (published (hdlr_step X status s)) = filter accepted (published s) \<and>
         logged (hdlr_step X status s) =
           logged s @ [if \<forall>v. output' s = Some v \<longrightarrow> json_dumps X v (json_format s) = None
                       then Failed_to_stringify else Error_publishing status] \<and>
         (hdlr_step X status s)\<lparr>dumped := d, published := p, logged := l\<rparr> =
           (hdlr_step X' AMQP_STATUS_OK s)\<lparr>dumped := d, published := p, logged := l\<rparr>"
  proof (cases "\<forall>v. output' s = Some v \<longrightarrow> json_dumps X v (json_format s) = None")
    case True
    from step_send_dumps_fails [OF assms(1) assms(3) True, of status] assms(1,2,3) True
    show ?thesis
      by (simp add: step_while_cond)
        (auto simp: hdlr_step_def hdlr_send_def split: option.splits)
  next
    case False
    then obtain v t where v: "output' s = Some v" "json_dumps X v (json_format s) = Some t"
      by auto
    from False assms(4) have "status \<noteq> AMQP_STATUS_OK" by blast
    with step_send_publish [OF assms(1) assms(3) v, of status] assms(1,2,3) v False
    show ?thesis
      by (simp add: step_while_cond)
        (auto simp: hdlr_step_def hdlr_send_def split: option.splits)
  qed
  have nxt: "pc (run X (replicate 3 (Hdlr status)) s) = Handle \<and>
         event (run X (replicate 3 (Hdlr status)) s) = r \<and>
         output' (run X (replicate 3 (Hdlr status)) s) = None \<and>
         count (run X (replicate 3 (Hdlr status)) s) = 0 \<and>
         events (run X (replicate 3 (Hdlr status)) s) = q"
    if "events s = r # q \<and> is_event r" for r q
    using assms(1,2,3) that by (intro next_event_popped) simp_all
  define s1 where "s1 = hdlr_step X status s"
  have "checked s1 = checked s"
    using assms(1) by (simp add: s1_def hdlr_step_def hdlr_send_def split: option.splits)
  with step have "pending s1 = set (events s) \<union> set (checked s)"
    by (simp add: pending_def s1_def)
  with sent_between_run [of X s1 as]
  have later: "\<exists>D P. dumped (run X as s1) = dumped s1 @ D \<and>
            published (run X as s1) = published s1 @ P \<and>
            map body P = publishes X D \<and>
            dumped_events D \<subseteq>
              set (events s) \<union> set (checked s) \<union> (\<Union>a \<in> set as. delivered a)"
    unfolding sent_between_def by auto
  from step nxt later show ?thesis
    unfolding s1_def by blast
qed

lemma at_send_state:
  "pc at_send = Send" "initialized at_send" "\<not> stopping at_send"
  "events at_send = [Event 3]" "logged at_send = []" "published at_send = []"
  "dumped at_send = []" "json_format at_send = json_format_of None"
  "output' at_send = Some (Array [Event 1, Event 2])"
  by (simp_all add: at_send_def init_state_def)

theorem failure_drops_the_group_witness:
  "pc at_send = Send \<and> initialized at_send \<and> \<not> stopping at_send \<and>
   pc (hdlr_step ext_ok AMQP_STATUS_CONNECTION_CLOSED at_send) = While_cond \<and>
   pc (hdlr_step ext_ok AMQP_STATUS_OK (hdlr_step ext_ok AMQP_STATUS_CONNECTION_CLOSED at_send)) = Pop \<and>
   events (hdlr_step ext_ok AMQP_STATUS_CONNECTION_CLOSED at_send) = [Event 3] \<and>
   dumped (hdlr_step ext_ok AMQP_STATUS_CONNECTION_CLOSED at_send) =
     [(Some (Array [Event 1, Event 2]), json_format_of None)] \<and>
   published (hdlr_step ext_ok AMQP_STATUS_CONNECTION_CLOSED at_send) =
     [(Array [Event 1, Event 2], ''{}'', AMQP_STATUS_CONNECTION_CLOSED)] \<and>
   filter accepted (published (hdlr_step ext_ok AMQP_STATUS_CONNECTION_CLOSED at_send)) = [] \<and>
   logged (hdlr_step ext_ok AMQP_STATUS_CONNECTION_CLOSED at_send) =
     [Error_publishing AMQP_STATUS_CONNECTION_CLOSED] \<and>
   event (run ext_ok (replicate 3 (Hdlr AMQP_STATUS_CONNECTION_CLOSED)) at_send) = Event 3 \<and>
   output' (run ext_ok (replicate 3 (Hdlr AMQP_STATUS_CONNECTION_CLOSED)) at_send) = None \<and>
   published (hdlr_step ext_dumps_fails AMQP_STATUS_OK at_send) = [] \<and>
   logged (hdlr_step ext_dumps_fails AMQP_STATUS_OK at_send) = [Failed_to_stringify] \<and>
   pc (hdlr_step ext_dumps_fails AMQP_STATUS_OK at_send) = While_cond \<and>
   event (run ext_dumps_fails (replicate 3 (Hdlr AMQP_STATUS_OK)) at_send) = Event 3"
  using failure_drops_the_group [where s = at_send and X = ext_ok
      and status = AMQP_STATUS_CONNECTION_CLOSED and status' = AMQP_STATUS_OK
      and X' = ext_ok and d = "[]" and p = "[]" and l = "[]" and as = "[]"]
    failure_drops_the_group [where s = at_send and X = ext_dumps_fails
      and status = AMQP_STATUS_OK and status' = AMQP_STATUS_OK
      and X' = ext_ok and d = "[]" and p = "[]" and l = "[]" and as = "[]"]
  by (simp add: at_send_state ext_ok_def ext_dumps_fails_def)

subsection \<open>The shutdown token\<close>

lemma event_free_exit: "janus_rabbitmqevh_event_free exit_event rc = rc"
  by (simp add: janus_rabbitmqevh_event_free_def)

lemma unref_skips_exit:
  "g_async_queue_unref (q1 @ exit_event # q2) rc = g_async_queue_unref (q1 @ q2) rc"
  by (simp add: g_async_queue_unref_def event_free_exit)

lemma is_event_all_not_exit: "list_all is_event xs \<Longrightarrow> exit_event \<notin> set xs"
  by (induction xs) (auto simp: is_event_iff)

text \<open>
  C4. In every state of every run from the state \<open>init\<close> leaves, whatever the threads'
  interleaving and whatever is pushed: the shutdown token is in no group under
  construction, in no value given to \<open>json_dumps\<close> and in no published body. When the
  blocking pop returns it the thread leaves with its group, its serialisations and its
  publishes untouched; when the non-blocking pop returns it the group stays as it is and
  the thread goes to line 601. The queue's notifier returns on the token without touching a
  reference count, so that releasing a queue that holds the token is releasing the queue
  without it.
\<close>

theorem shutdown_token_never_grouped:
  "(let s = run X as (init_state g fmt m rc) in
      exit_event \<notin> set (batch (output' s)) \<and>
      (\<forall>(v, f) \<in> set (dumped s). exit_event \<notin> set (batch v)) \<and>
      (\<forall>(v, t, status) \<in> set (published s). exit_event \<notin> set (batch (Some v))) \<and>
      (pc s = Pop \<and> events s = exit_event # q \<longrightarrow>
         hdlr_step X st s = s\<lparr>event := exit_event, events := q, pc := Leave\<rparr>) \<and>
      (pc s = Try_pop \<and> events s = exit_event # q \<longrightarrow>
         hdlr_step X st s = s\<lparr>event := exit_event, events := q, pc := Send\<rparr>)) \<and>
   janus_rabbitmqevh_event_free exit_event rc' = rc' \<and>
   g_async_queue_unref (q1 @ exit_event # q2) rc' = g_async_queue_unref (q1 @ q2) rc'"
proof -
  define s where "s = run X as (init_state g fmt m rc)"
  have i: "inv_exit s"
    unfolding s_def by (intro inv_exit_run inv_exit_init)
  have a: "exit_event \<notin> set (batch (output' s))"
    using i by (simp add: inv_exit_def is_event_all_not_exit)
  have "list_all (\<lambda>(v, f). list_all is_event (batch v)) (dumped s)"
    using i by (simp add: inv_exit_def)
  then have b: "\<forall>(v, f) \<in> set (dumped s). exit_event \<notin> set (batch v)"
    by (fastforce simp: list_all_iff is_event_iff)
  have "list_all (\<lambda>(v, t, status). list_all is_event (batch (Some v))) (published s)"
    using i by (simp add: inv_exit_def)
  then have c: "\<forall>(v, t, status) \<in> set (published s). exit_event \<notin> set (batch (Some v))"
    by (fastforce simp: list_all_iff is_event_iff)
  have d: "pc s = Pop \<and> events s = exit_event # q \<longrightarrow>
         hdlr_step X st s = s\<lparr>event := exit_event, events := q, pc := Leave\<rparr>"
    by (simp add: step_pop_exit)
  have e: "pc s = Try_pop \<and> events s = exit_event # q \<longrightarrow>
         hdlr_step X st s = s\<lparr>event := exit_event, events := q, pc := Send\<rparr>"
    using step_try_pop_end [of s X st] by auto
  from a b c d e show ?thesis
    unfolding s_def [symmetric] Let_def by (simp only: event_free_exit unref_skips_exit) simp
qed

lemma H_not_Incoming: "Incoming e \<noteq> H"
  by (simp add: H_def)

lemma token_first_run:
  "dumped (run ext_ok token_first grouping_on) =
     [(Some (Array [Event 1, Event 2]), json_format_of None)]"
  "published (run ext_ok token_first grouping_on) =
     [(Array [Event 1, Event 2], ''{}'', AMQP_STATUS_OK)]"
  "pc (run ext_ok token_first grouping_on) = Pop"
  "events (run ext_ok token_first grouping_on) = [exit_event]"
  by code_simp+

lemma token_mid_drain_run:
  "pc (run ext_ok token_mid_drain grouping_on) = Try_pop"
  "events (run ext_ok token_mid_drain grouping_on) = [exit_event]"
  "output' (run ext_ok token_mid_drain grouping_on) = Some (Array [Event 1])"
  "Incoming exit_event \<notin> set token_mid_drain"
  by code_simp+

lemma token_mid_drain_run1:
  "pc (run ext_ok (token_mid_drain @ [H]) grouping_on) = Send"
  "event (run ext_ok (token_mid_drain @ [H]) grouping_on) = exit_event"
  "events (run ext_ok (token_mid_drain @ [H]) grouping_on) = []"
  "output' (run ext_ok (token_mid_drain @ [H]) grouping_on) = Some (Array [Event 1])"
  "Incoming exit_event \<notin> set (token_mid_drain @ [H])"
  by code_simp+

lemma token_mid_drain_run2:
  "pc (run ext_ok (token_mid_drain @ [H, H]) grouping_on) = While_cond"
  "event (run ext_ok (token_mid_drain @ [H, H]) grouping_on) = exit_event"
  "dumped (run ext_ok (token_mid_drain @ [H, H]) grouping_on) = []"
  "published (run ext_ok (token_mid_drain @ [H, H]) grouping_on) = []"
  "Incoming exit_event \<notin> set (token_mid_drain @ [H, H])"
  by code_simp+

lemma token_mid_drain_run3:
  "pc (run ext_ok (token_mid_drain @ [H, H, H]) grouping_on) = Leave"
  "events (run ext_ok (token_mid_drain @ [H, H, H]) grouping_on) = []"
  by code_simp+

theorem shutdown_token_never_grouped_witness:
  "dumped (run ext_ok token_first grouping_on) =
     [(Some (Array [Event 1, Event 2]), json_format_of None)] \<and>
   published (run ext_ok token_first grouping_on) =
     [(Array [Event 1, Event 2], ''{}'', AMQP_STATUS_OK)] \<and>
   exit_event \<notin> set (batch (Some (Array [Event 1, Event 2]))) \<and>
   pc (run ext_ok token_first grouping_on) = Pop \<and>
   events (run ext_ok token_first grouping_on) = [exit_event] \<and>
   hdlr_step ext_ok AMQP_STATUS_OK (run ext_ok token_first grouping_on) =
     (run ext_ok token_first grouping_on)\<lparr>event := exit_event, events := [], pc := Leave\<rparr>"
  using shutdown_token_never_grouped [of ext_ok token_first True "json_format_of None" 0 no_refs
      "[]" AMQP_STATUS_OK no_refs "[]" "[]"]
  by (simp add: token_first_run grouping_on_def [symmetric] Let_def)

subsection \<open>The shutdown token seen by the non-blocking pop\<close>

text \<open>
  C5, as the claim states it, fails: in the run \<open>token_mid_drain\<close> the non-blocking pop
  takes the token out of the queue, which is then empty; the stop flag being set, the
  thread releases its group at line 601 without serialising it, reads the loop's condition
  and returns. It never pops again.
\<close>

theorem token_not_popped_again:
  "pc (run ext_ok token_mid_drain grouping_on) = Try_pop \<and>
   events (run ext_ok token_mid_drain grouping_on) = [exit_event] \<and>
   output' (run ext_ok token_mid_drain grouping_on) = Some (Array [Event 1]) \<and>
   pc (run ext_ok (token_mid_drain @ [H]) grouping_on) = Send \<and>
   event (run ext_ok (token_mid_drain @ [H]) grouping_on) = exit_event \<and>
   events (run ext_ok (token_mid_drain @ [H]) grouping_on) = [] \<and>
   output' (run ext_ok (token_mid_drain @ [H]) grouping_on) = Some (Array [Event 1]) \<and>
   pc (run ext_ok (token_mid_drain @ [H, H]) grouping_on) = While_cond \<and>
   dumped (run ext_ok (token_mid_drain @ [H, H]) grouping_on) = [] \<and>
   published (run ext_ok (token_mid_drain @ [H, H]) grouping_on) = [] \<and>
   pc (run ext_ok (token_mid_drain @ [H, H, H]) grouping_on) = Leave \<and>
   events (run ext_ok (token_mid_drain @ [H, H, H]) grouping_on) = []"
  by (simp only: token_mid_drain_run token_mid_drain_run1 token_mid_drain_run2
      token_mid_drain_run3 simp_thms)

text \<open>
  C5, amended. In every state of every run from the state \<open>init\<close> leaves, in which no
  caller of \<open>incoming_event\<close> passes the token (it is static in the file): when the
  non-blocking pop returns the token, the token leaves the queue, the group stays as it is
  and the thread goes to line 601; from then on the stop flag is set; at line 601 the
  thread releases the group without serialising or publishing it; at the loop's condition
  it returns. With the token in \<open>event\<close> the thread is never at the blocking pop.
\<close>

theorem token_ends_group_and_thread:
  assumes "Incoming exit_event \<notin> set as"
  shows "let s = run X as (init_state g fmt m rc) in
     (pc s = Try_pop \<and> events s = exit_event # q \<longrightarrow>
        hdlr_step X st s = s\<lparr>event := exit_event, events := q, pc := Send\<rparr>) \<and>
     (event s = exit_event \<and> pc s = Send \<longrightarrow>
        stopping s \<and>
        hdlr_step X st s =
          s\<lparr>refcount := json_decref_out (output' s) (refcount s), output' := None,
            pc := While_cond\<rparr>) \<and>
     (event s = exit_event \<and> pc s = While_cond \<longrightarrow>
        stopping s \<and> hdlr_step X st s = s\<lparr>pc := Leave\<rparr>) \<and>
     (event s = exit_event \<longrightarrow> pc s = Send \<or> pc s = While_cond \<or> pc s = Leave)"
proof -
  define s where "s = run X as (init_state g fmt m rc)"
  have i: "inv_stop s"
    unfolding s_def using assms by (intro inv_stop_run inv_stop_init)
  have a: "pc s = Try_pop \<and> events s = exit_event # q \<longrightarrow>
        hdlr_step X st s = s\<lparr>event := exit_event, events := q, pc := Send\<rparr>"
    using step_try_pop_end [of s X st] by auto
  have st: "stopping s" if "event s = exit_event" "pc s = Send \<or> pc s = While_cond"
    using i that by (auto simp: inv_stop_def)
  have b: "event s = exit_event \<and> pc s = Send \<longrightarrow>
        stopping s \<and>
        hdlr_step X st s =
          s\<lparr>refcount := json_decref_out (output' s) (refcount s), output' := None,
            pc := While_cond\<rparr>"
    using st by (auto simp: step_send_stopping)
  have c: "event s = exit_event \<and> pc s = While_cond \<longrightarrow>
        stopping s \<and> hdlr_step X st s = s\<lparr>pc := Leave\<rparr>"
    using st by (auto simp: step_while_cond)
  have d: "event s = exit_event \<longrightarrow> pc s = Send \<or> pc s = While_cond \<or> pc s = Leave"
    using i by (auto simp: inv_stop_def)
  from a b c d show ?thesis
    unfolding s_def [symmetric] Let_def by blast
qed

theorem token_ends_group_and_thread_witness:
  "Incoming exit_event \<notin> set (token_mid_drain @ [H, H]) \<and>
   pc (run ext_ok token_mid_drain grouping_on) = Try_pop \<and>
   events (run ext_ok token_mid_drain grouping_on) = [exit_event] \<and>
   hdlr_step ext_ok AMQP_STATUS_OK (run ext_ok token_mid_drain grouping_on) =
     (run ext_ok token_mid_drain grouping_on)\<lparr>event := exit_event, events := [], pc := Send\<rparr> \<and>
   event (run ext_ok (token_mid_drain @ [H]) grouping_on) = exit_event \<and>
   pc (run ext_ok (token_mid_drain @ [H]) grouping_on) = Send \<and>
   stopping (run ext_ok (token_mid_drain @ [H]) grouping_on) \<and>
   event (run ext_ok (token_mid_drain @ [H, H]) grouping_on) = exit_event \<and>
   pc (run ext_ok (token_mid_drain @ [H, H]) grouping_on) = While_cond \<and>
   hdlr_step ext_ok AMQP_STATUS_OK (run ext_ok (token_mid_drain @ [H, H]) grouping_on) =
     (run ext_ok (token_mid_drain @ [H, H]) grouping_on)\<lparr>pc := Leave\<rparr>"
  using token_ends_group_and_thread [of token_mid_drain ext_ok True "json_format_of None" 0
      no_refs "[]" AMQP_STATUS_OK]
    token_ends_group_and_thread [of "token_mid_drain @ [H]" ext_ok True "json_format_of None" 0
      no_refs "[]" AMQP_STATUS_OK]
    token_ends_group_and_thread [of "token_mid_drain @ [H, H]" ext_ok True "json_format_of None"
      0 no_refs "[]" AMQP_STATUS_OK]
  by (simp add: token_mid_drain_run token_mid_drain_run1 token_mid_drain_run2
      grouping_on_def [symmetric] Let_def H_not_Incoming)

subsection \<open>The size of a group, with the flag as configured\<close>

lemma next_group_starts:
  assumes "pc s = Send" "initialized s" "\<not> stopping s" "events s = r # q" "is_event r"
    and "output' s = Some v"
  shows "pc (run X (replicate 3 (Hdlr st)) s) = Handle \<and>
         event (run X (replicate 3 (Hdlr st)) s) = r \<and>
         output' (run X (replicate 3 (Hdlr st)) s) = None \<and>
         count (run X (replicate 3 (Hdlr st)) s) = 0 \<and>
         events (run X (replicate 3 (Hdlr st)) s) = q \<and>
         dumped (run X (replicate 3 (Hdlr st)) s) = dumped s @ [(Some v, json_format s)]"
proof -
  define s1 where "s1 = hdlr_step X st s"
  have s1: "pc s1 = While_cond" "initialized s1" "\<not> stopping s1" "events s1 = r # q"
    "dumped s1 = dumped s @ [(Some v, json_format s)]"
    using assms by (auto simp: s1_def hdlr_step_def hdlr_send_def split: option.splits)
  define s2 where "s2 = hdlr_step X st s1"
  have s2: "pc s2 = Pop" "events s2 = r # q" "dumped s2 = dumped s1"
    using s1 by (simp_all add: s2_def step_while_cond)
  have "hdlr_step X st s2 =
      s2\<lparr>event := r, events := q, count := 0, output' := None, pc := Handle\<rparr>"
    using s2 assms(5) by (intro step_pop_event)
  moreover have "replicate 3 (Hdlr st) = [Hdlr st, Hdlr st, Hdlr st]"
    by (simp add: numeral_3_eq_3)
  ultimately show ?thesis
    using s1 s2 by (simp add: s1_def [symmetric] s2_def [symmetric])
qed

text \<open>
  What holds of the size of a group. In every state of every run, requests included,
  after the handler thread has started with the grouping flag \<open>g\<close>: a group at line 601
  and every group that was serialised have between 1 and 100 events, and exactly one when
  the thread started with grouping disabled; when the thread reads the flag disabled at
  line 583 the event alone is the group. When the thread started with grouping enabled,
  grouping is enabled, the thread is at the blocking pop and 100 events are at the head of
  the queue, its next 200 steps collect exactly these 100, in order, and leave the rest in
  the queue; when an event \<open>r\<close> follows them and nothing stops the thread, three steps
  later the group has been serialised and \<open>r\<close> is the first event of a new, empty group.
\<close>

theorem group_size_bounds:
  "let s = run X as (hdlr_step X st_e (init_state g fmt m rc)) in
     (pc s = Send \<longrightarrow> 1 \<le> length (batch (output' s)) \<and> length (batch (output' s)) \<le> 100) \<and>
     list_all (\<lambda>(v, f). 1 \<le> length (batch v) \<and> length (batch v) \<le> 100) (dumped s) \<and>
     (\<not> g \<longrightarrow>
        (pc s = Send \<longrightarrow> length (batch (output' s)) = 1) \<and>
        list_all (\<lambda>(v, f). length (batch v) = 1) (dumped s)) \<and>
     (pc s = Handle \<and> \<not> group_events s \<longrightarrow>
        hdlr_step X st s = s\<lparr>output' := Some (Single (event s)), pc := Send\<rparr>) \<and>
     (g \<and> group_events s \<and> pc s = Pop \<and> events s = es @ rest \<and> length es = 100 \<and>
      list_all is_event es \<longrightarrow>
        run X (replicate 200 (Hdlr st)) s =
          s\<lparr>output' := Some (Array es), count := 100, event := last es, events := rest,
            pc := Send\<rparr> \<and>
        (\<forall>r q. rest = r # q \<and> is_event r \<and> initialized s \<and> \<not> stopping s \<longrightarrow>
           pc (run X (replicate 203 (Hdlr st)) s) = Handle \<and>
           event (run X (replicate 203 (Hdlr st)) s) = r \<and>
           output' (run X (replicate 203 (Hdlr st)) s) = None \<and>
           count (run X (replicate 203 (Hdlr st)) s) = 0 \<and>
           events (run X (replicate 203 (Hdlr st)) s) = q \<and>
           dumped (run X (replicate 203 (Hdlr st)) s) =
             dumped s @ [(Some (Array es), json_format s)]))"
proof -
  define s where "s = run X as (hdlr_step X st_e (init_state g fmt m rc))"
  have "inv_size (if g then 100 else 1) (hdlr_step X st_e (init_state g fmt m rc))"
    by (simp add: inv_size_def hdlr_step_def init_state_def)
  then have sized: "inv_size (if g then 100 else 1) s"
    unfolding s_def by (intro inv_size_run) simp_all
  have a: "(pc s = Send \<longrightarrow> 1 \<le> length (batch (output' s)) \<and> length (batch (output' s)) \<le> 100) \<and>
        list_all (\<lambda>(v, f). 1 \<le> length (batch v) \<and> length (batch v) \<le> 100) (dumped s)"
    using sized by (cases g) (fastforce simp: inv_size_def list_all_iff)+
  have b: "(pc s = Send \<longrightarrow> length (batch (output' s)) = 1) \<and>
        list_all (\<lambda>(v, f). length (batch v) = 1) (dumped s)" if "\<not> g"
    using sized that by (fastforce simp: inv_size_def list_all_iff)
  have d: "pc s = Handle \<and> \<not> group_events s \<longrightarrow>
        hdlr_step X st s = s\<lparr>output' := Some (Single (event s)), pc := Send\<rparr>"
    by (simp add: step_handle_single)
  have c: "run X (replicate 200 (Hdlr st)) s =
          s\<lparr>output' := Some (Array es), count := 100, event := last es, events := rest,
            pc := Send\<rparr> \<and>
        (\<forall>r q. rest = r # q \<and> is_event r \<and> initialized s \<and> \<not> stopping s \<longrightarrow>
           pc (run X (replicate 203 (Hdlr st)) s) = Handle \<and>
           event (run X (replicate 203 (Hdlr st)) s) = r \<and>
           output' (run X (replicate 203 (Hdlr st)) s) = None \<and>
           count (run X (replicate 203 (Hdlr st)) s) = 0 \<and>
           events (run X (replicate 203 (Hdlr st)) s) = q \<and>
           dumped (run X (replicate 203 (Hdlr st)) s) =
             dumped s @ [(Some (Array es), json_format s)])"
    if h: "g" "group_events s" "pc s = Pop" "events s = es @ rest" "length es = 100"
      "list_all is_event es"
  proof -
    from sized h have m: "max_n s = 100" by (simp add: inv_size_def)
    from h have ne: "es \<noteq> []" by auto
    have "run X (replicate (2 * length es + (if int (length es) = max_n s then 0 else 1))
                  (Hdlr st)) s =
         s\<lparr>output' := Some (Array es), count := int (length es),
           event := (if int (length es) = max_n s then last es
                     else if rest = [] then NULL else exit_event),
           events := (if int (length es) = max_n s then rest else tl rest),
           pc := Send\<rparr>"
      using h m ne by (intro collect_group) simp_all
    then have first: "run X (replicate 200 (Hdlr st)) s =
          s\<lparr>output' := Some (Array es), count := 100, event := last es, events := rest,
            pc := Send\<rparr>"
      using h m by simp
    have "(203::nat) = 200 + 3" by simp
    then have split: "run X (replicate 203 (Hdlr st)) s =
        run X (replicate 3 (Hdlr st)) (run X (replicate 200 (Hdlr st)) s)"
      by (simp only: run_hdlr_add)
    show ?thesis
    proof (intro conjI allI impI)
      show "run X (replicate 200 (Hdlr st)) s =
          s\<lparr>output' := Some (Array es), count := 100, event := last es, events := rest,
            pc := Send\<rparr>" by (rule first)
    next
      fix r q
      assume r: "rest = r # q \<and> is_event r \<and> initialized s \<and> \<not> stopping s"
      define s1 where "s1 = s\<lparr>output' := Some (Array es), count := 100, event := last es,
            events := rest, pc := Send\<rparr>"
      have "pc (run X (replicate 3 (Hdlr st)) s1) = Handle \<and>
         event (run X (replicate 3 (Hdlr st)) s1) = r \<and>
         output' (run X (replicate 3 (Hdlr st)) s1) = None \<and>
         count (run X (replicate 3 (Hdlr st)) s1) = 0 \<and>
         events (run X (replicate 3 (Hdlr st)) s1) = q \<and>
         dumped (run X (replicate 3 (Hdlr st)) s1) = dumped s1 @ [(Some (Array es), json_format s1)]"
        using r by (intro next_group_starts) (simp_all add: s1_def)
      then show
        "pc (run X (replicate 203 (Hdlr st)) s) = Handle"
        "event (run X (replicate 203 (Hdlr st)) s) = r"
        "output' (run X (replicate 203 (Hdlr st)) s) = None"
        "count (run X (replicate 203 (Hdlr st)) s) = 0"
        "events (run X (replicate 203 (Hdlr st)) s) = q"
        "dumped (run X (replicate 203 (Hdlr st)) s) =
             dumped s @ [(Some (Array es), json_format s)]"
        unfolding split first s1_def [symmetric] by (simp_all add: s1_def)
    qed
  qed
  from a b c d show ?thesis
    unfolding s_def [symmetric] Let_def by blast
qed

lemma list_all_is_event_map: "list_all is_event (map Event ns)"
  by (simp add: list_all_iff)

lemma full_queue_run:
  "pc (run ext_ok full_queue started_on) = Pop"
  "events (run ext_ok full_queue started_on) = map Event [0..<100] @ [Event 100]"
  "group_events (run ext_ok full_queue started_on)"
  "initialized (run ext_ok full_queue started_on)"
  "\<not> stopping (run ext_ok full_queue started_on)"
  by code_simp+

lemma two_events_run:
  "pc (run ext_ok two_events started_off) = While_cond"
  "events (run ext_ok two_events started_off) = [Event 2]"
  "dumped (run ext_ok two_events started_off) =
     [(Some (Single (Event 1)), json_format_of None)]"
  by code_simp+

lemma one_popped_run:
  "pc (run ext_ok one_popped started_off) = Handle"
  "\<not> group_events (run ext_ok one_popped started_off)"
  "event (run ext_ok one_popped started_off) = Event 1"
  by code_simp+

theorem group_size_bounds_witness:
  "pc (run ext_ok full_queue started_on) = Pop \<and>
   group_events (run ext_ok full_queue started_on) \<and>
   events (run ext_ok full_queue started_on) = map Event [0..<100] @ [Event 100] \<and>
   length (map Event [0..<100]) = 100 \<and>
   run ext_ok (replicate 200 (Hdlr AMQP_STATUS_OK)) (run ext_ok full_queue started_on) =
     (run ext_ok full_queue started_on)
       \<lparr>output' := Some (Array (map Event [0..<100])), count := 100,
         event := last (map Event [0..<100]), events := [Event 100], pc := Send\<rparr> \<and>
   pc (run ext_ok (replicate 203 (Hdlr AMQP_STATUS_OK)) (run ext_ok full_queue started_on)) =
     Handle \<and>
   event (run ext_ok (replicate 203 (Hdlr AMQP_STATUS_OK)) (run ext_ok full_queue started_on)) =
     Event 100 \<and>
   output' (run ext_ok (replicate 203 (Hdlr AMQP_STATUS_OK)) (run ext_ok full_queue started_on)) =
     None \<and>
   dumped (run ext_ok two_events started_off) =
     [(Some (Single (Event 1)), json_format_of None)] \<and>
   list_all (\<lambda>(v, f). length (batch v) = 1) (dumped (run ext_ok two_events started_off)) \<and>
   pc (run ext_ok one_popped started_off) = Handle \<and>
   \<not> group_events (run ext_ok one_popped started_off) \<and>
   hdlr_step ext_ok AMQP_STATUS_OK (run ext_ok one_popped started_off) =
     (run ext_ok one_popped started_off)\<lparr>output' := Some (Single (Event 1)), pc := Send\<rparr>"
  using group_size_bounds [where as = full_queue and X = ext_ok and g = True
      and st_e = AMQP_STATUS_OK and fmt = "json_format_of None" and m = 0 and rc = no_refs
      and es = "map Event [0..<100]" and rest = "[Event 100]" and st = AMQP_STATUS_OK]
    group_size_bounds [where as = two_events and X = ext_ok and g = False
      and st_e = AMQP_STATUS_OK and fmt = "json_format_of None" and m = 0 and rc = no_refs
      and es = "[]" and rest = "[]" and st = AMQP_STATUS_OK]
    group_size_bounds [where as = one_popped and X = ext_ok and g = False
      and st_e = AMQP_STATUS_OK and fmt = "json_format_of None" and m = 0 and rc = no_refs
      and es = "[]" and rest = "[]" and st = AMQP_STATUS_OK]
  by (simp add: full_queue_run two_events_run one_popped_run Let_def grouping_on_def [symmetric]
      grouping_off_def [symmetric] started_on_def [symmetric] started_off_def [symmetric]
      list_all_is_event_map)

text \<open>
  C2. The code does not do what the claim says when the grouping is enabled by a request
  after the handler thread has started with grouping disabled: \<open>max\<close> is still 1 (the
  defect of C9). In every state of every such run, with grouping enabled, the thread at the
  blocking pop and an event \<open>e\<close> at the head of the queue: two steps later the thread is
  at line 601 with the array of \<open>e\<close> alone, and the rest of the queue, however long, is
  where it was.
\<close>

theorem full_queue_not_grouped:
  "let s = run X as (hdlr_step X st_e (init_state False fmt m rc)) in
     pc s = Pop \<and> group_events s \<and> events s = e # rest \<and> is_event e \<longrightarrow>
       run X (replicate 2 (Hdlr st)) s =
         s\<lparr>event := e, events := rest, count := 1, output' := Some (Array [e]), pc := Send\<rparr>"
proof -
  define s where "s = run X as (hdlr_step X st_e (init_state False fmt m rc))"
  have "inv_size 1 (hdlr_step X st_e (init_state False fmt m rc))"
    by (simp add: inv_size_def hdlr_step_def init_state_def)
  then have "inv_size 1 s"
    unfolding s_def by (intro inv_size_run) simp_all
  then have m: "max_n s = 1" by (simp add: inv_size_def)
  have "run X (replicate 2 (Hdlr st)) s =
         s\<lparr>event := e, events := rest, count := 1, output' := Some (Array [e]), pc := Send\<rparr>"
    if h: "pc s = Pop" "group_events s" "events s = e # rest" "is_event e"
  proof -
    define s1 where "s1 = s\<lparr>event := e, events := rest, count := 0, output' := None,
                          pc := Handle\<rparr>"
    have e1: "hdlr_step X st s = s1"
      unfolding s1_def using h by (intro step_pop_event)
    have "hdlr_step X st s1 =
        s1\<lparr>output' := Some (Array (batch (output' s1) @ [event s1])), count := count s1 + 1,
          pc := (if count s1 + 1 = max_n s1 then Send else Try_pop)\<rparr>"
      using h by (intro step_handle_grouping) (simp_all add: s1_def)
    moreover have "replicate 2 (Hdlr st) = [Hdlr st, Hdlr st]"
      by (simp add: numeral_2_eq_2)
    ultimately show ?thesis
      using m by (simp add: e1) (simp add: s1_def)
  qed
  then show ?thesis
    unfolding s_def [symmetric] Let_def by blast
qed

lemma late_full_queue_run:
  "pc (run ext_ok late_full_queue started_off) = Pop"
  "group_events (run ext_ok late_full_queue started_off)"
  "events (run ext_ok late_full_queue started_off) = Event 0 # map Event [1..<101]"
  by code_simp+

theorem full_queue_not_grouped_witness:
  "pc (run ext_ok late_full_queue started_off) = Pop \<and>
   group_events (run ext_ok late_full_queue started_off) \<and>
   events (run ext_ok late_full_queue started_off) = Event 0 # map Event [1..<101] \<and>
   length (map Event [1..<101]) = 100 \<and>
   run ext_ok (replicate 2 (Hdlr AMQP_STATUS_OK)) (run ext_ok late_full_queue started_off) =
     (run ext_ok late_full_queue started_off)
       \<lparr>event := Event 0, events := map Event [1..<101], count := 1,
         output' := Some (Array [Event 0]), pc := Send\<rparr>"
  using full_queue_not_grouped [where X = ext_ok and as = late_full_queue
      and st_e = AMQP_STATUS_OK and st = AMQP_STATUS_OK and fmt = "json_format_of None"
      and m = 0 and rc = no_refs and e = "Event 0" and rest = "map Event [1..<101]"]
  by (simp add: late_full_queue_run Let_def grouping_off_def [symmetric]
      started_off_def [symmetric] del: run_Cons)

subsection \<open>The value that is serialised\<close>

lemma one_event_run:
  "dumped (run ext_ok one_event grouping_on) = [(Some (Array [Event 1]), json_format_of None)]"
  "published (run ext_ok one_event grouping_on) = [(Array [Event 1], ''{}'', AMQP_STATUS_OK)]"
  "events (run ext_ok one_event grouping_on) = []"
  by code_simp+

text \<open>
  C3, as the claim states it, fails: with grouping enabled, a queue that holds one event
  gives a group of exactly one event, and the value serialised and published is an array
  with this one element, not the event's object.
\<close>

theorem one_event_is_sent_as_array:
  "dumped (run ext_ok one_event grouping_on) = [(Some (Array [Event 1]), json_format_of None)] \<and>
   published (run ext_ok one_event grouping_on) = [(Array [Event 1], ''{}'', AMQP_STATUS_OK)] \<and>
   batch (Some (Array [Event 1])) = [Event 1] \<and>
   Array [Event 1] \<noteq> Single (Event 1)"
  by (simp add: one_event_run)

lemma send_appends:
  assumes "pc s = Send" "\<not> stopping s" "output' s = Some v"
  shows "dumped (hdlr_step X st s) = dumped s @ [(Some v, json_format s)] \<and>
         (\<forall>t. json_dumps X v (json_format s) = Some t \<longrightarrow>
            published (hdlr_step X st s) = published s @ [(v, t, st)])"
  using assms by (auto simp: hdlr_step_def hdlr_send_def split: option.splits)

text \<open>
  C3, amended. The handler thread is at the blocking pop, not stopping, and the events
  \<open>es\<close> are at the head of the queue. With grouping disabled the value given to
  \<open>json_dumps\<close> is the first event itself. With grouping enabled, \<open>es\<close> being what the
  thread collects (at most \<open>max\<close> events, up to \<open>max\<close> or the end of the queue or the
  shutdown token), the value is an array of the events \<open>es\<close> in the queue's order, also when
  \<open>es\<close> is a single event. In both cases \<open>json_dumps\<close> gets \<open>json_format\<close> as it is,
  whatever mode was configured, and the text it returns is the body published.
\<close>

theorem serialised_value:
  assumes "pc s = Pop" "\<not> stopping s" "events s = es @ rest" "es \<noteq> []"
    and "list_all is_event es"
  shows "(\<not> group_events s \<longrightarrow>
           dumped (run X (replicate 3 (Hdlr st)) s) =
             dumped s @ [(Some (Single (hd es)), json_format s)] \<and>
           (\<forall>t. json_dumps X (Single (hd es)) (json_format s) = Some t \<longrightarrow>
              published (run X (replicate 3 (Hdlr st)) s) =
                published s @ [(Single (hd es), t, st)])) \<and>
         (group_events s \<and> int (length es) \<le> max_n s \<and>
          (int (length es) = max_n s \<or> rest = [] \<or> hd rest = exit_event) \<longrightarrow>
           dumped (run X (replicate (2 * length es +
                     (if int (length es) = max_n s then 1 else 2)) (Hdlr st)) s) =
             dumped s @ [(Some (Array es), json_format s)] \<and>
           (\<forall>t. json_dumps X (Array es) (json_format s) = Some t \<longrightarrow>
              published (run X (replicate (2 * length es +
                     (if int (length es) = max_n s then 1 else 2)) (Hdlr st)) s) =
                published s @ [(Array es, t, st)]))"
proof -
  have a: "dumped (run X (replicate 3 (Hdlr st)) s) =
             dumped s @ [(Some (Single (hd es)), json_format s)] \<and>
           (\<forall>t. json_dumps X (Single (hd es)) (json_format s) = Some t \<longrightarrow>
              published (run X (replicate 3 (Hdlr st)) s) =
                published s @ [(Single (hd es), t, st)])" if g: "\<not> group_events s"
  proof -
  from assms obtain e es' where es: "es = e # es'" by (cases es) auto
  define s1 where "s1 = s\<lparr>event := e, events := es' @ rest, count := 0, output' := None,
                        pc := Handle\<rparr>"
  have e1: "hdlr_step X st s = s1"
    unfolding s1_def using assms es by (intro step_pop_event) auto
  define s2 where "s2 = s1\<lparr>output' := Some (Single (event s1)), pc := Send\<rparr>"
  have e2: "hdlr_step X st s1 = s2"
    unfolding s2_def using g by (intro step_handle_single) (simp_all add: s1_def)
  have n: "replicate 3 (Hdlr st) = [Hdlr st, Hdlr st, Hdlr st]"
    by (simp add: numeral_3_eq_3)
  have "dumped (hdlr_step X st s2) = dumped s2 @ [(Some (Single e), json_format s2)] \<and>
         (\<forall>t. json_dumps X (Single e) (json_format s2) = Some t \<longrightarrow>
            published (hdlr_step X st s2) = published s2 @ [(Single e, t, st)])"
    using assms by (intro send_appends) (simp_all add: s1_def s2_def)
  then show ?thesis
    unfolding n by (simp add: e1 e2 es) (simp add: s1_def s2_def)
  qed
  have b: "dumped (run X (replicate (2 * length es +
                     (if int (length es) = max_n s then 1 else 2)) (Hdlr st)) s) =
             dumped s @ [(Some (Array es), json_format s)] \<and>
           (\<forall>t. json_dumps X (Array es) (json_format s) = Some t \<longrightarrow>
              published (run X (replicate (2 * length es +
                     (if int (length es) = max_n s then 1 else 2)) (Hdlr st)) s) =
                published s @ [(Array es, t, st)])"
    if h: "group_events s \<and> int (length es) \<le> max_n s \<and>
          (int (length es) = max_n s \<or> rest = [] \<or> hd rest = exit_event)"
  proof -
  define k where "k = 2 * length es + (if int (length es) = max_n s then 0 else 1)"
  define s1 where "s1 = s\<lparr>output' := Some (Array es), count := int (length es),
           event := (if int (length es) = max_n s then last es
                     else if rest = [] then NULL else exit_event),
           events := (if int (length es) = max_n s then rest else tl rest),
           pc := Send\<rparr>"
  have c: "run X (replicate k (Hdlr st)) s = s1"
    unfolding k_def s1_def using assms h by (intro collect_group) simp_all
  have n: "2 * length es + (if int (length es) = max_n s then 1 else 2) = k + 1"
    by (simp add: k_def)
  have "dumped (hdlr_step X st s1) = dumped s1 @ [(Some (Array es), json_format s1)] \<and>
         (\<forall>t. json_dumps X (Array es) (json_format s1) = Some t \<longrightarrow>
            published (hdlr_step X st s1) = published s1 @ [(Array es, t, st)])"
    using assms by (intro send_appends) (simp_all add: s1_def)
  then show ?thesis
    unfolding n run_hdlr_add c by (simp add: s1_def)
  qed
  from a b show ?thesis by blast
qed

lemma one_queued_run:
  "pc (run ext_ok one_queued grouping_on) = Pop"
  "\<not> stopping (run ext_ok one_queued grouping_on)"
  "events (run ext_ok one_queued grouping_on) = [Event 1]"
  "group_events (run ext_ok one_queued grouping_on)"
  "max_n (run ext_ok one_queued grouping_on) = 100"
  "dumped (run ext_ok one_queued grouping_on) = []"
  "json_format (run ext_ok one_queued grouping_on) = 259"
  by code_simp+

lemma one_queued_off_run:
  "pc (run ext_ok one_queued compact_off) = Pop"
  "\<not> stopping (run ext_ok one_queued compact_off)"
  "events (run ext_ok one_queued compact_off) = [Event 1]"
  "\<not> group_events (run ext_ok one_queued compact_off)"
  "dumped (run ext_ok one_queued compact_off) = []"
  "json_format (run ext_ok one_queued compact_off) = 288"
  by code_simp+

theorem serialised_value_witness:
  "pc (run ext_ok one_queued grouping_on) = Pop \<and>
   \<not> stopping (run ext_ok one_queued grouping_on) \<and>
   events (run ext_ok one_queued grouping_on) = [Event 1] @ [] \<and>
   group_events (run ext_ok one_queued grouping_on) \<and>
   dumped (run ext_ok (replicate 4 (Hdlr AMQP_STATUS_OK)) (run ext_ok one_queued grouping_on)) =
     [(Some (Array [Event 1]), 259)] \<and>
   pc (run ext_ok one_queued compact_off) = Pop \<and>
   \<not> group_events (run ext_ok one_queued compact_off) \<and>
   dumped (run ext_ok (replicate 3 (Hdlr AMQP_STATUS_OK)) (run ext_ok one_queued compact_off)) =
     [(Some (Single (Event 1)), 288)]"
  using serialised_value [where s = "run ext_ok one_queued grouping_on" and es = "[Event 1]"
      and rest = "[]" and X = ext_ok and st = AMQP_STATUS_OK]
    serialised_value [where s = "run ext_ok one_queued compact_off" and es = "[Event 1]"
      and rest = "[]" and X = ext_ok and st = AMQP_STATUS_OK]
  by (simp add: one_queued_run one_queued_off_run)

subsection \<open>Grouping enabled by a request\<close>

text \<open>
  C9. The code does not do what the claim says. \<open>max\<close> is computed once, at line 565,
  when the thread starts. When the thread has started with grouping disabled, \<open>max\<close> is 1
  in every state of every run, whatever the requests: with grouping enabled by a request,
  line 594 ends the group after its first event, the thread is never at the non-blocking
  pop, and every group at line 601 and every group that was serialised has exactly one
  event. (Disabling works: with the flag off, line 585 takes the event alone.)
\<close>

theorem grouping_enabled_late_never_groups:
  "(let s = run X as (hdlr_step X st_e (init_state False fmt m rc)) in
      max_n s = 1 \<and> pc s \<noteq> Try_pop \<and>
      (pc s = Handle \<and> group_events s \<longrightarrow>
         hdlr_step X st s = s\<lparr>output' := Some (Array [event s]), count := 1, pc := Send\<rparr>) \<and>
      (pc s = Send \<longrightarrow> length (batch (output' s)) = 1) \<and>
      list_all (\<lambda>(v, f). length (batch v) = 1) (dumped s)) \<and>
   (pc s' = Handle \<and> \<not> group_events s' \<longrightarrow>
      hdlr_step X st s' = s'\<lparr>output' := Some (Single (event s')), pc := Send\<rparr>)"
proof -
  define s where "s = run X as (hdlr_step X st_e (init_state False fmt m rc))"
  have "inv_size 1 (hdlr_step X st_e (init_state False fmt m rc))"
    by (simp add: inv_size_def hdlr_step_def init_state_def)
  then have i: "inv_size 1 s"
    unfolding s_def by (intro inv_size_run) simp_all
  have a: "max_n s = 1" "pc s \<noteq> Try_pop" "pc s = Send \<longrightarrow> length (batch (output' s)) = 1"
    using i by (auto simp: inv_size_def)
  have b: "list_all (\<lambda>(v, f). length (batch v) = 1) (dumped s)"
    using i by (fastforce simp: inv_size_def list_all_iff)
  have c: "hdlr_step X st s = s\<lparr>output' := Some (Array [event s]), count := 1, pc := Send\<rparr>"
    if h: "pc s = Handle" "group_events s"
  proof -
    from i h have n: "not_single (output' s)" "count s = 0" "batch (output' s) = []"
      by (auto simp: inv_size_def)
    from step_handle_grouping [OF h n(1), of X st] n a(1) show ?thesis by simp
  qed
  from a b c show ?thesis
    unfolding s_def [symmetric] Let_def by (simp add: step_handle_single)
qed

lemma late_grouping_run:
  "pc (run ext_ok late_grouping started_off) = Handle"
  "group_events (run ext_ok late_grouping started_off)"
  "event (run ext_ok late_grouping started_off) = Event 1"
  "events (run ext_ok late_grouping started_off) = [Event 2, Event 3]"
  "pc (run ext_ok (late_grouping @ [H]) started_off) = Send"
  "output' (run ext_ok (late_grouping @ [H]) started_off) = Some (Array [Event 1])"
  "events (run ext_ok (late_grouping @ [H]) started_off) = [Event 2, Event 3]"
  by code_simp+

lemma late_single_run:
  "pc (run ext_ok late_single grouping_on) = Handle"
  "\<not> group_events (run ext_ok late_single grouping_on)"
  "event (run ext_ok late_single grouping_on) = Event 1"
  by code_simp+

theorem grouping_enabled_late_never_groups_witness:
  "pc (run ext_ok late_grouping started_off) = Handle \<and>
   group_events (run ext_ok late_grouping started_off) \<and>
   events (run ext_ok late_grouping started_off) = [Event 2, Event 3] \<and>
   hdlr_step ext_ok AMQP_STATUS_OK (run ext_ok late_grouping started_off) =
     (run ext_ok late_grouping started_off)
       \<lparr>output' := Some (Array [Event 1]), count := 1, pc := Send\<rparr> \<and>
   pc (run ext_ok (late_grouping @ [H]) started_off) = Send \<and>
   events (run ext_ok (late_grouping @ [H]) started_off) = [Event 2, Event 3] \<and>
   length (batch (output' (run ext_ok (late_grouping @ [H]) started_off))) = 1 \<and>
   pc (run ext_ok late_single grouping_on) = Handle \<and>
   \<not> group_events (run ext_ok late_single grouping_on) \<and>
   hdlr_step ext_ok AMQP_STATUS_OK (run ext_ok late_single grouping_on) =
     (run ext_ok late_single grouping_on)\<lparr>output' := Some (Single (Event 1)), pc := Send\<rparr>"
  using grouping_enabled_late_never_groups [where X = ext_ok and as = late_grouping
      and st_e = AMQP_STATUS_OK and st = AMQP_STATUS_OK and fmt = "json_format_of None"
      and m = 0 and rc = no_refs and s' = "run ext_ok late_single grouping_on"]
    grouping_enabled_late_never_groups [where X = ext_ok and as = "late_grouping @ [H]"
      and st_e = AMQP_STATUS_OK and st = AMQP_STATUS_OK and fmt = "json_format_of None"
      and m = 0 and rc = no_refs and s' = "run ext_ok late_single grouping_on"]
  by (simp add: late_grouping_run late_single_run Let_def grouping_off_def [symmetric]
      started_off_def [symmetric])

subsection \<open>The connection\<close>

text \<open>
  C6. The code does not do what the claim says for the client certificate and key. The
  function returns 0 exactly when every call it makes succeeds, except
  \<open>amqp_ssl_socket_set_key\<close>, whose status decides nothing: line 369 drops it and
  line 370 tests the status of the call before.
\<close>

theorem connect_succeeds_iff:
  "snd (janus_rabbitmqevh_connect c a) = 0 \<longleftrightarrow>
     (if ssl_enable c
      then ssl_socket_new a \<and> (ssl_cacert_file c \<noteq> None \<longrightarrow> set_cacert a = AMQP_STATUS_OK)
      else tcp_socket_new a) \<and>
     socket_open a = AMQP_STATUS_OK \<and>
     login a = AMQP_RESPONSE_NORMAL \<and>
     channel_open a = AMQP_RESPONSE_NORMAL \<and>
     (exchange c \<noteq> None \<longrightarrow> exchange_declare a = AMQP_RESPONSE_NORMAL) \<and>
     (declare_outgoing_queue c \<longrightarrow> queue_declare a = AMQP_RESPONSE_NORMAL)"
  by (auto simp: janus_rabbitmqevh_connect_def connect_ssl_socket_def connect_tcp_socket_def
      Let_def split: option.splits prod.splits if_splits)

theorem connect_succeeds_iff_witness:
  "janus_rabbitmqevh_connect tls_config (all_ok\<lparr>set_key := AMQP_STATUS_SSL_ERROR\<rparr>) =
     ([Amqp_new_connection, Amqp_ssl_socket_new, Amqp_ssl_socket_set_verify_peer True,
       Amqp_ssl_socket_set_verify_hostname True, Amqp_ssl_socket_set_cacert ''ca.pem'',
       Amqp_ssl_socket_set_key ''cert.pem'' ''key.pem'', Amqp_socket_open ''localhost'' 5671,
       Amqp_login ''/'' 60 ''guest'' ''guest'', Amqp_channel_open,
       Amqp_exchange_declare ''janus-exchange'' ''fanout'', Amqp_queue_declare ''janus-events''],
      0) \<and>
   janus_rabbitmqevh_connect tls_config (all_ok\<lparr>set_cacert := AMQP_STATUS_SSL_ERROR\<rparr>) =
     ([Amqp_new_connection, Amqp_ssl_socket_new, Amqp_ssl_socket_set_verify_peer True,
       Amqp_ssl_socket_set_verify_hostname True, Amqp_ssl_socket_set_cacert ''ca.pem''],
      - 1)"
  using connect_succeeds_iff [of tls_config "all_ok\<lparr>set_key := AMQP_STATUS_SSL_ERROR\<rparr>"]
    connect_succeeds_iff [of tls_config "all_ok\<lparr>set_cacert := AMQP_STATUS_SSL_ERROR\<rparr>"]
  by (simp add: janus_rabbitmqevh_connect_def connect_ssl_socket_def tls_config_def all_ok_def)

subsection \<open>The heartbeat thread\<close>

lemma hrtbt_run_Nil [simp]: "hrtbt_run [] s = s"
  by (simp add: hrtbt_run_def)

lemma hrtbt_run_Cons [simp]: "hrtbt_run (a # as) s = hrtbt_run as (hrtbt_do a s)"
  by (simp add: hrtbt_run_def)

lemma hrtbt_run_append: "hrtbt_run (as @ bs) s = hrtbt_run bs (hrtbt_run as s)"
  by (simp add: hrtbt_run_def)

lemma connects_append [simp]: "connects (xs @ ys) = connects xs + connects ys"
  by (induction xs rule: connects.induct) simp_all

lemma sleeps_append [simp]: "sleeps (xs @ ys) = sleeps xs @ sleeps ys"
  by (induction xs rule: sleeps.induct) simp_all

text \<open>One iteration of the loop, from its condition back to its condition.\<close>

lemma iteration_soft:
  assumes "hpc s = H_while" "initialized s" "\<not> stopping s" "\<not> hard res"
  shows "hrtbt_run (iteration (res, a)) s =
     s\<lparr>trace := trace s @ [Wait_frame (rmq_conn s) res, Usleep (gulong_of_int (waiting_usec s))]\<rparr>"
  using assms by (auto simp: hrtbt_step_def hard_def)

lemma iteration_hard:
  assumes "hpc s = H_while" "initialized s" "\<not> stopping s" "hard res"
  shows "hrtbt_run (iteration (res, a)) s =
     s\<lparr>rmq_conn := Suc (rmq_conn s),
       trace := trace s @
         [Wait_frame (rmq_conn s) res, Destroy_connection (rmq_conn s),
          Connect (fst (janus_rabbitmqevh_connect (cfg s) a))
            (snd (janus_rabbitmqevh_connect (cfg s) a)),
          Usleep (if snd (janus_rabbitmqevh_connect (cfg s) a) < 0 then 5000000
                  else gulong_of_int (waiting_usec s))]\<rparr>"
  using assms by (auto simp: hrtbt_step_def hard_def split: prod.splits)

lemma iteration_stopped:
  assumes "hpc s = H_while" "initialized s" "\<not> stopping s" "hard res"
  shows "hrtbt_run [Hrtbt res a, Hrtbt res a, Stop, Hrtbt res a] s =
     s\<lparr>stopping := True,
       trace := trace s @ [Wait_frame (rmq_conn s) res, Destroy_connection (rmq_conn s)]\<rparr>"
  using assms by (auto simp: hrtbt_step_def hard_def)

lemma iterations:
  assumes "hpc s = H_while" "initialized s" "\<not> stopping s"
  shows "hpc (hrtbt_run (concat (map iteration ras)) s) = H_while \<and>
         initialized (hrtbt_run (concat (map iteration ras)) s) \<and>
         \<not> stopping (hrtbt_run (concat (map iteration ras)) s) \<and>
         cfg (hrtbt_run (concat (map iteration ras)) s) = cfg s \<and>
         waiting_usec (hrtbt_run (concat (map iteration ras)) s) = waiting_usec s \<and>
         connects (trace (hrtbt_run (concat (map iteration ras)) s)) =
           connects (trace s) + length (filter (\<lambda>(res, a). hard res) ras) \<and>
         sleeps (trace (hrtbt_run (concat (map iteration ras)) s)) =
           sleeps (trace s) @ map (iteration_sleep (cfg s) (waiting_usec s)) ras"
  using assms
proof (induction ras arbitrary: s)
  case Nil
  then show ?case by simp
next
  case (Cons ra ras)
  obtain res a where ra: "ra = (res, a)" by (cases ra)
  define s1 where "s1 = hrtbt_run (iteration (res, a)) s"
  have s1: "hpc s1 = H_while" "initialized s1" "\<not> stopping s1" "cfg s1 = cfg s"
    "waiting_usec s1 = waiting_usec s"
    "connects (trace s1) = connects (trace s) + (if hard res then 1 else 0)"
    "sleeps (trace s1) = sleeps (trace s) @ [iteration_sleep (cfg s) (waiting_usec s) (res, a)]"
    unfolding s1_def
    using iteration_soft [OF Cons.prems, of res a] iteration_hard [OF Cons.prems, of res a]
      Cons.prems
    by (cases "hard res"; simp)+
  have split: "hrtbt_run (concat (map iteration (ra # ras))) s =
      hrtbt_run (concat (map iteration ras)) s1"
    by (simp only: ra s1_def list.map concat.simps hrtbt_run_append)
  from Cons.IH [OF s1(1) s1(2) s1(3)] show ?case
    unfolding split by (simp add: s1 ra)
qed

lemma waiting_usec_exact:
  assumes "unat h \<le> 4295"
  shows "gulong_of_int (waiting_usec_of h) = (unat h div 2) * 1000000"
proof -
  define n where "n = unat h div 2"
  have u: "uint h div 2 = int n"
    by (simp add: n_def zdiv_int)
  from assms have "n \<le> 2147" by (simp add: n_def)
  then have b: "int n * 1000000 < 2 ^ 31" by simp
  have "int32_wrap (int n * 1000000) = int n * 1000000"
    using b by (simp add: int32_wrap_def)
  moreover have "(int n * 1000000) mod 2 ^ 64 = int n * 1000000"
    using b by simp
  ultimately show ?thesis
    by (simp add: gulong_of_int_def waiting_usec_of_def u n_def [symmetric] nat_mult_distrib)
qed

lemma hrtbt_waiting_step:
  assumes "cfg s = c" "hpc s \<noteq> H_enter \<longrightarrow> waiting_usec s = waiting_usec_of (heartbeat c)"
  shows "cfg (hrtbt_do a s) = c \<and>
         (hpc (hrtbt_do a s) \<noteq> H_enter \<longrightarrow>
            waiting_usec (hrtbt_do a s) = waiting_usec_of (heartbeat c))"
proof (cases a)
  case (Hrtbt res ans)
  with assms show ?thesis
    by (cases "hpc s") (auto simp: hrtbt_step_def split: prod.splits)
next
  case Stop
  with assms show ?thesis by simp
qed

lemma hrtbt_waiting_run:
  assumes "cfg s = c" "hpc s \<noteq> H_enter \<longrightarrow> waiting_usec s = waiting_usec_of (heartbeat c)"
  shows "cfg (hrtbt_run as s) = c \<and>
         (hpc (hrtbt_run as s) \<noteq> H_enter \<longrightarrow>
            waiting_usec (hrtbt_run as s) = waiting_usec_of (heartbeat c))"
  using assms
proof (induction as arbitrary: s)
  case Nil
  then show ?case by simp
next
  case (Cons a as)
  from hrtbt_waiting_step [OF Cons.prems, of a]
  have "cfg (hrtbt_run as (hrtbt_do a s)) = c \<and>
         (hpc (hrtbt_run as (hrtbt_do a s)) \<noteq> H_enter \<longrightarrow>
            waiting_usec (hrtbt_run as (hrtbt_do a s)) = waiting_usec_of (heartbeat c))"
    by (intro Cons.IH) simp_all
  then show ?case by simp
qed

lemma hrtbt_initialized_step: "initialized (hrtbt_do a s) = initialized s"
  by (cases a; cases "hpc s") (auto simp: hrtbt_step_def split: prod.splits)

lemma hrtbt_initialized_run: "initialized (hrtbt_run as s) = initialized s"
  by (induction as arbitrary: s) (simp_all add: hrtbt_initialized_step)

lemma iteration_sleep_half:
  assumes "gulong_of_int w = (unat (heartbeat c) div 2) * 1000000"
  shows "iteration_sleep c w ra = backoff_or_half c ra"
  using assms by (cases ra) simp

lemma heartbeat_1_reconnect:
  "unat (heartbeat heartbeat_1) = 1"
  "hard AMQP_STATUS_CONNECTION_CLOSED"
  "snd (janus_rabbitmqevh_connect heartbeat_1 all_ok) = 0"
  "hpc (hrtbt_run one_reconnect (hrtbt_init heartbeat_1)) = H_while"
  "connects (trace (hrtbt_run one_reconnect (hrtbt_init heartbeat_1))) = 1"
  "sleeps (trace (hrtbt_run one_reconnect (hrtbt_init heartbeat_1))) = [0]"
  by (simp_all add: one_reconnect_def one_poll_def hrtbt_step_def hrtbt_init_def
      heartbeat_1_def tls_config_def all_ok_def hard_def janus_rabbitmqevh_connect_def
      connect_ssl_socket_def waiting_usec_of_def int32_wrap_def gulong_of_int_def)

text \<open>
  C7, as the claim states it, fails: with a heartbeat of 1 second the thread polls a
  closed connection, reconnects with success and then sleeps 0 microseconds, which is not
  half of a second.
\<close>

theorem heartbeat_1_reconnect_sleeps_0:
  "0 < unat (heartbeat heartbeat_1) \<and>
   hard AMQP_STATUS_CONNECTION_CLOSED \<and>
   snd (janus_rabbitmqevh_connect heartbeat_1 all_ok) = 0 \<and>
   hpc (hrtbt_run one_reconnect (hrtbt_init heartbeat_1)) = H_while \<and>
   connects (trace (hrtbt_run one_reconnect (hrtbt_init heartbeat_1))) = 1 \<and>
   sleeps (trace (hrtbt_run one_reconnect (hrtbt_init heartbeat_1))) = [0] \<and>
   2 * (0::nat) \<noteq> unat (heartbeat heartbeat_1) * 1000000"
  by (simp add: heartbeat_1_reconnect)

text \<open>
  C7, amended. For a heartbeat between 1 and 4295 seconds (beyond which the product at
  line 638 does not fit an \<open>int\<close>), in every state of every run of the heartbeat thread
  in which it is at the loop's condition and the stop flag is not set: after a poll that
  reports a hard error (neither success, nor a timeout, nor the TLS condition) the thread
  destroys the connection it polled and calls \<open>janus_rabbitmqevh_connect\<close> once, then
  sleeps 5 seconds when the connection failed and, when it succeeded, the whole seconds in
  half the heartbeat, \<open>heartbeat / 2\<close> in integer division, times 1000000 microseconds,
  and is back at the loop's condition; when \<open>destroy\<close> sets the stop flag between the
  poll and line 663 it destroys the connection and does not connect. Over any number of
  iterations the thread is back at the loop's condition, it has tried to connect once for
  each hard error, however many they are, and it has slept once in each iteration: 5
  seconds after a failed connection, else the whole seconds in half the heartbeat, which
  is exactly half the heartbeat when the heartbeat is even.
\<close>

theorem hard_error_reconnects:
  assumes "0 < unat (heartbeat c)" "unat (heartbeat c) \<le> 4295"
  shows "(let s = hrtbt_run as (hrtbt_init c) in
            hpc s = H_while \<and> \<not> stopping s \<longrightarrow>
              (hard res \<longrightarrow>
                 hrtbt_run (iteration (res, a)) s =
                   s\<lparr>rmq_conn := Suc (rmq_conn s),
                     trace := trace s @
                       [Wait_frame (rmq_conn s) res, Destroy_connection (rmq_conn s),
                        Connect (fst (janus_rabbitmqevh_connect c a))
                          (snd (janus_rabbitmqevh_connect c a)),
                        Usleep (if snd (janus_rabbitmqevh_connect c a) < 0 then 5000000
                                else (unat (heartbeat c) div 2) * 1000000)]\<rparr> \<and>
                 hrtbt_run [Hrtbt res a, Hrtbt res a, Stop, Hrtbt res a] s =
                   s\<lparr>stopping := True,
                     trace := trace s @
                       [Wait_frame (rmq_conn s) res, Destroy_connection (rmq_conn s)]\<rparr>) \<and>
              hpc (hrtbt_run (concat (map iteration ras)) s) = H_while \<and>
              connects (trace (hrtbt_run (concat (map iteration ras)) s)) =
                connects (trace s) + length (filter (\<lambda>(res, a). hard res) ras) \<and>
              sleeps (trace (hrtbt_run (concat (map iteration ras)) s)) =
                sleeps (trace s) @ map (backoff_or_half c) ras) \<and>
         (even (unat (heartbeat c)) \<longrightarrow>
            2 * ((unat (heartbeat c) div 2) * 1000000) = unat (heartbeat c) * 1000000)"
proof -
  define s where "s = hrtbt_run as (hrtbt_init c)"
  have i: "initialized s"
    by (simp add: s_def hrtbt_initialized_run hrtbt_init_def)
  have "cfg s = c \<and> (hpc s \<noteq> H_enter \<longrightarrow> waiting_usec s = waiting_usec_of (heartbeat c))"
    unfolding s_def by (intro hrtbt_waiting_run) (simp_all add: hrtbt_init_def)
  then have c: "cfg s = c"
    and w: "gulong_of_int (waiting_usec s) = (unat (heartbeat c) div 2) * 1000000"
    if "hpc s = H_while"
    using that assms(2) by (simp_all add: waiting_usec_exact)
  have a: "hrtbt_run (iteration (res, a)) s =
             s\<lparr>rmq_conn := Suc (rmq_conn s),
               trace := trace s @
                 [Wait_frame (rmq_conn s) res, Destroy_connection (rmq_conn s),
                  Connect (fst (janus_rabbitmqevh_connect c a))
                    (snd (janus_rabbitmqevh_connect c a)),
                  Usleep (if snd (janus_rabbitmqevh_connect c a) < 0 then 5000000
                          else (unat (heartbeat c) div 2) * 1000000)]\<rparr> \<and>
           hrtbt_run [Hrtbt res a, Hrtbt res a, Stop, Hrtbt res a] s =
             s\<lparr>stopping := True,
               trace := trace s @
                 [Wait_frame (rmq_conn s) res, Destroy_connection (rmq_conn s)]\<rparr>"
    if "hpc s = H_while" "\<not> stopping s" "hard res"
    using iteration_hard [OF that(1) i that(2) that(3), of a]
      iteration_stopped [OF that(1) i that(2) that(3), of a] c [OF that(1)] w [OF that(1)]
    by (simp del: iteration.simps hrtbt_run_Cons)
  have m: "map (iteration_sleep c (waiting_usec s)) ras = map (backoff_or_half c) ras"
    if "hpc s = H_while"
    using iteration_sleep_half [OF w [OF that]] by simp
  have b: "hpc (hrtbt_run (concat (map iteration ras)) s) = H_while \<and>
           connects (trace (hrtbt_run (concat (map iteration ras)) s)) =
             connects (trace s) + length (filter (\<lambda>(res, a). hard res) ras) \<and>
           sleeps (trace (hrtbt_run (concat (map iteration ras)) s)) =
             sleeps (trace s) @ map (backoff_or_half c) ras"
    if "hpc s = H_while" "\<not> stopping s"
    using iterations [OF that(1) i that(2), of ras] c [OF that(1)] m [OF that(1)]
    by simp
  have e: "even (unat (heartbeat c)) \<longrightarrow>
            2 * ((unat (heartbeat c) div 2) * 1000000) = unat (heartbeat c) * 1000000"
    by auto
  from a b e show ?thesis
    unfolding s_def [symmetric] Let_def by blast
qed

lemma hrtbt_started_run:
  "hpc (hrtbt_run [Hrtbt AMQP_STATUS_OK all_ok] (hrtbt_init tls_config)) = H_while"
  "\<not> stopping (hrtbt_run [Hrtbt AMQP_STATUS_OK all_ok] (hrtbt_init tls_config))"
  "trace (hrtbt_run [Hrtbt AMQP_STATUS_OK all_ok] (hrtbt_init tls_config)) = []"
  "rmq_conn (hrtbt_run [Hrtbt AMQP_STATUS_OK all_ok] (hrtbt_init tls_config)) = 0"
  "unat (heartbeat tls_config) = 60"
  by (simp_all add: hrtbt_step_def hrtbt_init_def tls_config_def)

lemma scenario_d_facts:
  "hard AMQP_STATUS_SOCKET_ERROR"
  "hard AMQP_STATUS_CONNECTION_CLOSED"
  "snd (janus_rabbitmqevh_connect tls_config refused) = -1"
  "snd (janus_rabbitmqevh_connect tls_config all_ok) = 0"
  "length (filter (\<lambda>(res, a). hard res) scenario_d) = 2"
  "map (backoff_or_half tls_config) scenario_d = [5000000, 30000000, 30000000]"
  by (simp_all add: scenario_d_def hard_def janus_rabbitmqevh_connect_def
      connect_ssl_socket_def tls_config_def all_ok_def refused_def)

theorem hard_error_reconnects_witness:
  "0 < unat (heartbeat tls_config) \<and> unat (heartbeat tls_config) \<le> 4295 \<and>
   even (unat (heartbeat tls_config)) \<and>
   hpc (hrtbt_run [Hrtbt AMQP_STATUS_OK all_ok] (hrtbt_init tls_config)) = H_while \<and>
   \<not> stopping (hrtbt_run [Hrtbt AMQP_STATUS_OK all_ok] (hrtbt_init tls_config)) \<and>
   hard AMQP_STATUS_SOCKET_ERROR \<and> hard AMQP_STATUS_CONNECTION_CLOSED \<and>
   sleeps (trace (hrtbt_run (iteration (AMQP_STATUS_SOCKET_ERROR, refused))
     (hrtbt_run [Hrtbt AMQP_STATUS_OK all_ok] (hrtbt_init tls_config)))) = [5000000] \<and>
   sleeps (trace (hrtbt_run (iteration (AMQP_STATUS_CONNECTION_CLOSED, all_ok))
     (hrtbt_run [Hrtbt AMQP_STATUS_OK all_ok] (hrtbt_init tls_config)))) = [30000000] \<and>
   hpc (hrtbt_run (concat (map iteration scenario_d))
     (hrtbt_run [Hrtbt AMQP_STATUS_OK all_ok] (hrtbt_init tls_config))) = H_while \<and>
   connects (trace (hrtbt_run (concat (map iteration scenario_d))
     (hrtbt_run [Hrtbt AMQP_STATUS_OK all_ok] (hrtbt_init tls_config)))) = 2 \<and>
   sleeps (trace (hrtbt_run (concat (map iteration scenario_d))
     (hrtbt_run [Hrtbt AMQP_STATUS_OK all_ok] (hrtbt_init tls_config)))) =
     [5000000, 30000000, 30000000]"
  using hard_error_reconnects [where c = tls_config and as = "[Hrtbt AMQP_STATUS_OK all_ok]"
      and res = AMQP_STATUS_SOCKET_ERROR and a = refused and ras = scenario_d]
    hard_error_reconnects [where c = tls_config and as = "[Hrtbt AMQP_STATUS_OK all_ok]"
      and res = AMQP_STATUS_CONNECTION_CLOSED and a = all_ok and ras = scenario_d]
  by (simp add: hrtbt_started_run scenario_d_facts Let_def
      del: hrtbt_run_Cons iteration.simps)

subsection \<open>The sleep between two polls\<close>

lemma heartbeat_1_run:
  "sleeps (trace (hrtbt_run (one_poll AMQP_STATUS_TIMEOUT) (hrtbt_init heartbeat_1))) = [0]"
  "sleeps (trace (hrtbt_run (one_poll AMQP_STATUS_OK) (hrtbt_init heartbeat_1))) = [0]"
  "unat (heartbeat heartbeat_1) = 1"
  by (simp_all add: one_poll_def hrtbt_step_def hrtbt_init_def heartbeat_1_def
      waiting_usec_of_def int32_wrap_def gulong_of_int_def)

text \<open>
  C8, as the claim states it, fails: with a heartbeat of 1 second the thread sleeps 0
  microseconds after a poll that timed out or succeeded, which is not half of a second.
\<close>

theorem heartbeat_1_sleeps_0:
  "0 < unat (heartbeat heartbeat_1) \<and>
   sleeps (trace (hrtbt_run (one_poll AMQP_STATUS_TIMEOUT) (hrtbt_init heartbeat_1))) = [0] \<and>
   sleeps (trace (hrtbt_run (one_poll AMQP_STATUS_OK) (hrtbt_init heartbeat_1))) = [0] \<and>
   2 * (0::nat) \<noteq> unat (heartbeat heartbeat_1) * 1000000"
  by (simp add: heartbeat_1_run)

text \<open>
  C8, amended. For a heartbeat between 1 and 4295 seconds (beyond which the product at
  line 638 does not fit an \<open>int\<close>), in every state of every run of the heartbeat thread:
  after a poll that succeeds or reports a timeout or the TLS condition, the thread sleeps
  the whole seconds in half the heartbeat, \<open>heartbeat / 2\<close> in integer division, times
  1000000 microseconds, and is back at the loop's condition; this is exactly half the
  heartbeat when the heartbeat is even.
\<close>

theorem steady_state_sleep:
  assumes "0 < unat (heartbeat c)" "unat (heartbeat c) \<le> 4295" "\<not> hard res"
  shows "(let s = hrtbt_run as (hrtbt_init c) in
            hpc s = H_wait_frame \<longrightarrow>
              hrtbt_step res a s =
                s\<lparr>trace := trace s @
                    [Wait_frame (rmq_conn s) res,
                     Usleep ((unat (heartbeat c) div 2) * 1000000)],
                  hpc := H_while\<rparr>) \<and>
         (even (unat (heartbeat c)) \<longrightarrow>
            2 * ((unat (heartbeat c) div 2) * 1000000) = unat (heartbeat c) * 1000000)"
proof -
  define s where "s = hrtbt_run as (hrtbt_init c)"
  have "cfg s = c \<and> (hpc s \<noteq> H_enter \<longrightarrow> waiting_usec s = waiting_usec_of (heartbeat c))"
    unfolding s_def by (intro hrtbt_waiting_run) (simp_all add: hrtbt_init_def)
  then have w: "gulong_of_int (waiting_usec s) = (unat (heartbeat c) div 2) * 1000000"
    if "hpc s = H_wait_frame"
    using that assms(2) by (simp add: waiting_usec_exact)
  have a: "hpc s = H_wait_frame \<longrightarrow>
              hrtbt_step res a s =
                s\<lparr>trace := trace s @
                    [Wait_frame (rmq_conn s) res,
                     Usleep ((unat (heartbeat c) div 2) * 1000000)],
                  hpc := H_while\<rparr>"
    using w assms(3) by (auto simp: hrtbt_step_def hard_def)
  have b: "even (unat (heartbeat c)) \<longrightarrow>
            2 * ((unat (heartbeat c) div 2) * 1000000) = unat (heartbeat c) * 1000000"
    by auto
  from a b show ?thesis
    unfolding s_def [symmetric] Let_def by blast
qed

lemma tls_config_run:
  "hpc (hrtbt_run [Hrtbt AMQP_STATUS_OK all_ok, Hrtbt AMQP_STATUS_OK all_ok]
          (hrtbt_init tls_config)) = H_wait_frame"
  "unat (heartbeat tls_config) = 60"
  "\<not> hard AMQP_STATUS_SSL_ERROR"
  "trace (hrtbt_run [Hrtbt AMQP_STATUS_OK all_ok, Hrtbt AMQP_STATUS_OK all_ok]
          (hrtbt_init tls_config)) = []"
  "rmq_conn (hrtbt_run [Hrtbt AMQP_STATUS_OK all_ok, Hrtbt AMQP_STATUS_OK all_ok]
          (hrtbt_init tls_config)) = 0"
  by (simp_all add: hrtbt_step_def hrtbt_init_def tls_config_def hard_def)

theorem steady_state_sleep_witness:
  "0 < unat (heartbeat tls_config) \<and> unat (heartbeat tls_config) \<le> 4295 \<and>
   \<not> hard AMQP_STATUS_SSL_ERROR \<and> even (unat (heartbeat tls_config)) \<and>
   hpc (hrtbt_run [Hrtbt AMQP_STATUS_OK all_ok, Hrtbt AMQP_STATUS_OK all_ok]
          (hrtbt_init tls_config)) = H_wait_frame \<and>
   trace (hrtbt_step AMQP_STATUS_SSL_ERROR all_ok
     (hrtbt_run [Hrtbt AMQP_STATUS_OK all_ok, Hrtbt AMQP_STATUS_OK all_ok]
          (hrtbt_init tls_config))) =
     [Wait_frame 0 AMQP_STATUS_SSL_ERROR, Usleep 30000000]"
  using steady_state_sleep [of tls_config AMQP_STATUS_SSL_ERROR
      "[Hrtbt AMQP_STATUS_OK all_ok, Hrtbt AMQP_STATUS_OK all_ok]" all_ok]
  by (simp add: tls_config_run Let_def del: hrtbt_run_Cons)

end
